theory Spec2Isabelle
  imports Main "HOL-Library.Sublist" "HOL-Library.AList"
begin

section \<open>The chat service of the Shadow server: data model\<close>

text \<open>
  The development embeds the class \<open>ChatService\<close> (the TypeScript chat orchestration
  service). Its three registries, the \<open>chatMessage\<close> table it reads and writes through
  the ORM, the task table, the pending slot of the batch service and the trace of the
  external calls it issues form one explicit state, the record \<open>world\<close>. The completion
  engine is an input: the list of events a turn receives.

  Not part of the state: socket notifications other than the queued-action one, the MCP
  manager (every call of \<open>stopMCPManager\<close> is wrapped in a handler that only logs), task
  activity and cleanup scheduling, and the git automation after a completed turn (whose
  failures are logged and swallowed).
\<close>

subsection \<open>Events of the completion engine\<close>

record usage =
  promptTokens :: int
  completionTokens :: int
  totalTokens :: int

record tool_call =
  tc_id :: string
  tc_name :: string
  tc_args :: string

record tool_result =
  tr_id :: string
  tr_result :: string

text \<open>
  A stream chunk carries a type tag and optional payload fields; each handler reads only
  the payload of its own tag, so the chunk is a tagged union whose payloads are optional.
  \<open>ErrorChunk e r\<close> carries \<open>chunk.error\<close> and \<open>chunk.finishReason\<close>.
\<close>

datatype chunk =
    Content "string option"
  | Reasoning "string option"
  | ReasoningSignature "string option"
  | RedactedReasoning "string option"
  | ToolCall "tool_call option"
  | ToolResult "tool_result option"
  | ErrorChunk "string option" "string option"
  | Usage "usage option"
  | OtherChunk

text \<open>JavaScript truthiness of an optional string: present and not empty.\<close>

fun truthy :: "string option \<Rightarrow> bool" where
  "truthy None = False"
| "truthy (Some s) = (s \<noteq> [])"

text \<open>The payload of a chunk whose guard has found it truthy.\<close>

fun payload :: "string option \<Rightarrow> string" where
  "payload None = []"
| "payload (Some s) = s"

text \<open>\<open>a || d\<close> on an optional string.\<close>

fun or_default :: "string option \<Rightarrow> string \<Rightarrow> string" where
  "or_default None d = d"
| "or_default (Some s) d = (if s = [] then d else s)"

text \<open>\<open>String.prototype.includes\<close>: the needle occurs as a contiguous substring.\<close>

fun str_includes :: "string \<Rightarrow> string \<Rightarrow> bool" where
  "str_includes [] n = (n = [])"
| "str_includes (c # cs) n = (prefix n (c # cs) \<or> str_includes cs n)"

subsection \<open>Assistant message parts\<close>

datatype part =
    TextPart string
  | ReasoningPart string "string option"
  | RedactedReasoningPart string
  | ToolCallPart string string string
  | ToolResultPart string string string
  | ErrorPart string "string option"

text \<open>
  \<open>ToolCallPart id name args\<close>, \<open>ToolResultPart id name result\<close>,
  \<open>ReasoningPart text signature\<close>, \<open>ErrorPart error finishReason\<close>.
\<close>

fun isTextPart :: "part \<Rightarrow> bool" where
  "isTextPart (TextPart t) = True"
| "isTextPart p = False"

fun partText :: "part \<Rightarrow> string" where
  "partText (TextPart t) = t"
| "partText p = []"

text \<open>
  \<open>assistantParts.filter(part => part.type === "text").map(part => part.text).join("")\<close>
\<close>

definition fullContent :: "part list \<Rightarrow> string" where
  "fullContent ps = concat (map partText (filter isTextPart ps))"

text \<open>
  \<open>assistantParts.find(part => part.type === "tool-call" && part.toolCallId === id)\<close>
\<close>

fun isCallFor :: "string \<Rightarrow> part \<Rightarrow> bool" where
  "isCallFor i (ToolCallPart c n a) = (c = i)"
| "isCallFor i p = False"

fun toolNameOf :: "part \<Rightarrow> string" where
  "toolNameOf (ToolCallPart c n a) = n"
| "toolNameOf p = []"

definition resolveToolName :: "part list \<Rightarrow> string \<Rightarrow> string" where
  "resolveToolName ps i =
     (case find (isCallFor i) ps of None \<Rightarrow> [] | Some p \<Rightarrow> toolNameOf p)"

subsection \<open>The message table\<close>

datatype role = USER | ASSISTANT | SYSTEM

record metadata =
  md_isStreaming :: bool
  md_parts :: "part list"
  md_usage :: "usage option"
  md_finishReason :: "string option"

record chat_message =
  m_id :: nat
  m_taskId :: string
  m_role :: role
  m_sequence :: int
  m_content :: string
  m_llmModel :: string
  m_metadata :: "metadata option"
  m_usage :: "usage option"
  m_finishReason :: "string option"
  m_stackedTaskId :: "string option"
  m_edited :: bool

datatype task_status = INITIALIZING | RUNNING | COMPLETED | FAILED | STOPPED

datatype init_status = INACTIVE | ACTIVE

record task_row =
  t_userId :: string
  t_initStatus :: init_status

subsection \<open>Queued actions, the batch slot, the trace\<close>

text \<open>
  \<open>QueuedMessage message model workspacePath\<close> and
  \<open>QueuedStackedPR message parentTaskId model userId\<close>.
\<close>

datatype queued_action =
    QueuedMessage string string "string option"
  | QueuedStackedPR string string string string

record pending_update =
  pu_messageId :: nat
  pu_parts :: "part list"
  pu_usage :: "usage option"
  pu_finishReason :: "string option"

text \<open>
  The calls that leave the service, in the order they are issued. \<open>DbCreate\<close> and
  \<open>DbUpdate\<close> are the awaited ORM writes of the chat service itself (the row as written),
  \<open>BatchWrite\<close> is a write issued by the batch service, \<open>Abort c\<close> is
  \<open>abortController.abort()\<close> on controller \<open>c\<close>, \<open>StatusUpdate\<close> is
  \<open>updateTaskStatus\<close>, \<open>EmitQueuedActionProcessing\<close> is the socket event of that name.
\<close>

datatype effect =
    DbCreate chat_message
  | DbUpdate chat_message
  | BatchWrite chat_message
  | DbDeleteMany string int
  | StatusUpdate string task_status
  | Abort nat
  | EmitQueuedActionProcessing string string

datatype exn =
    RecordNotFound
  | StreamFailure string
  | EditedMessageNotFound
  | ParentTaskNotFound
  | Unauthorized

record world =
  activeStreams :: "string \<rightharpoonup> nat"
  stopRequested :: "string set"
  queuedActions :: "string \<rightharpoonup> queued_action"
  nextController :: nat
  chatMessages :: "chat_message list"
  nextMessageId :: nat
  tasks :: "string \<rightharpoonup> task_row"
  taskIdCounter :: nat
  pendingUpdates :: "string \<rightharpoonup> pending_update"
  trace :: "effect list"

text \<open>
  What the service takes from its collaborators and does not compute: the wiki message
  of a task (absent when there is none), the formatted memories of a task (present when
  memories are enabled and the task has at least one, whatever the formatted text is),
  the task identifier generator, the schema's default for the initialisation status of a
  new task, and whether \<open>databaseBatchService.clear\<close> writes the pending update before
  dropping it.
\<close>

record env =
  shadowWikiMessage :: "string \<Rightarrow> string option"
  memoryContent :: "string \<Rightarrow> string option"
  generateTaskId :: "nat \<Rightarrow> string"
  defaultInitStatus :: init_status
  clearFlushes :: bool

definition emit :: "effect \<Rightarrow> world \<Rightarrow> world" where
  "emit e w = w\<lparr>trace := trace w @ [e]\<rparr>"

text \<open>
  Modelled from the spec: \<open>updateTaskStatus\<close> (the module \<open>utils/task-status\<close> is
  not part of the excerpt) sets the status of a task. The call is recorded in the trace;
  the status of a task is the last one recorded for it.
\<close>

definition updateTaskStatus :: "string \<Rightarrow> task_status \<Rightarrow> world \<Rightarrow> world" where
  "updateTaskStatus t st w = emit (StatusUpdate t st) w"

subsection \<open>ORM operations on the message table\<close>

text \<open>
  \<open>findFirst({where: {taskId}, orderBy: {sequence: "desc"}, select: {sequence}})\<close>:
  the greatest sequence of the task, if it has a message.
\<close>

definition lastSequence :: "string \<Rightarrow> chat_message list \<Rightarrow> int option" where
  "lastSequence t ms =
     (case map m_sequence (filter (\<lambda>m. m_taskId m = t) ms) of
        [] \<Rightarrow> None
      | q # qs \<Rightarrow> Some (fold max qs q))"

text \<open>\<open>(lastMessage?.sequence || 0) + 1\<close>; a stored sequence of 0 is falsy.\<close>

definition nextSequenceOf :: "int option \<Rightarrow> int" where
  "nextSequenceOf l = (case l of None \<Rightarrow> 0 | Some q \<Rightarrow> (if q = 0 then 0 else q)) + 1"

text \<open>
  \<open>getNextSequence\<close> (lines 227-238): the transaction only reads; it returns a number
  and leaves the table as it is.
\<close>

definition getNextSequence :: "string \<Rightarrow> world \<Rightarrow> int" where
  "getNextSequence t w = nextSequenceOf (lastSequence t (chatMessages w))"

text \<open>\<open>prisma.chatMessage.create\<close>: the row gets a fresh identifier.\<close>

definition createMessage :: "chat_message \<Rightarrow> world \<Rightarrow> chat_message \<times> world" where
  "createMessage m w =
     (let row = m\<lparr>m_id := nextMessageId w\<rparr>
      in (row, emit (DbCreate row)
                 (w\<lparr>chatMessages := chatMessages w @ [row],
                    nextMessageId := Suc (nextMessageId w)\<rparr>)))"

definition newMessage ::
  "string \<Rightarrow> role \<Rightarrow> int \<Rightarrow> string \<Rightarrow> string \<Rightarrow> metadata option \<Rightarrow> chat_message" where
  "newMessage t r q c model md =
     \<lparr>m_id = 0, m_taskId = t, m_role = r, m_sequence = q, m_content = c,
      m_llmModel = model, m_metadata = md,
      m_usage = (case md of None \<Rightarrow> None | Some d \<Rightarrow> md_usage d),
      m_finishReason = (case md of None \<Rightarrow> None | Some d \<Rightarrow> md_finishReason d),
      m_stackedTaskId = None, m_edited = False\<rparr>"

text \<open>
  \<open>createMessageWithAtomicSequence\<close> (lines 241-280): the read of the greatest sequence
  and the insert are one transaction, here one function from table to table.
\<close>

definition createMessageWithAtomicSequence ::
  "string \<Rightarrow> role \<Rightarrow> string \<Rightarrow> string \<Rightarrow> metadata option \<Rightarrow> world \<Rightarrow> chat_message \<times> world" where
  "createMessageWithAtomicSequence t r c model md w =
     (let sequence = nextSequenceOf (lastSequence t (chatMessages w))
      in createMessage (newMessage t r sequence c model md) w)"

definition saveUserMessage :: "string \<Rightarrow> string \<Rightarrow> string \<Rightarrow> world \<Rightarrow> chat_message \<times> world" where
  "saveUserMessage t c model w = createMessageWithAtomicSequence t USER c model None w"

text \<open>
  \<open>saveAssistantMessage\<close> and \<open>saveSystemMessage\<close> (lines 302-373): without a sequence
  they allocate atomically, with one they insert the row under the sequence given.
\<close>

definition saveAssistantMessage ::
  "string \<Rightarrow> string \<Rightarrow> string \<Rightarrow> int option \<Rightarrow> metadata option \<Rightarrow> world \<Rightarrow> chat_message \<times> world" where
  "saveAssistantMessage t c model sq md w =
     (case sq of
        None \<Rightarrow> createMessageWithAtomicSequence t ASSISTANT c model md w
      | Some q \<Rightarrow> createMessage (newMessage t ASSISTANT q c model md) w)"

definition saveSystemMessage ::
  "string \<Rightarrow> string \<Rightarrow> string \<Rightarrow> int option \<Rightarrow> world \<Rightarrow> chat_message \<times> world" where
  "saveSystemMessage t c model sq w =
     (case sq of
        None \<Rightarrow> createMessageWithAtomicSequence t SYSTEM c model None w
      | Some q \<Rightarrow> createMessage (newMessage t SYSTEM q c model None) w)"

text \<open>
  \<open>prisma.chatMessage.update({where: {id}, data})\<close>: the ORM raises when no row has the
  identifier.
\<close>

definition findMessage :: "nat \<Rightarrow> chat_message list \<Rightarrow> chat_message option" where
  "findMessage i ms = find (\<lambda>m. m_id m = i) ms"

definition updateRow :: "nat \<Rightarrow> (chat_message \<Rightarrow> chat_message) \<Rightarrow> chat_message list \<Rightarrow> chat_message list" where
  "updateRow i f ms = map (\<lambda>m. if m_id m = i then f m else m) ms"

definition updateMessage ::
  "nat \<Rightarrow> (chat_message \<Rightarrow> chat_message) \<Rightarrow> world \<Rightarrow> exn option \<times> world" where
  "updateMessage i f w =
     (case findMessage i (chatMessages w) of
        None \<Rightarrow> (Some RecordNotFound, w)
      | Some m \<Rightarrow>
          (None, emit (DbUpdate (f m)) (w\<lparr>chatMessages := updateRow i f (chatMessages w)\<rparr>)))"

text \<open>\<open>prisma.chatMessage.deleteMany({where: {taskId, sequence: {gt: s}}})\<close>\<close>

definition deleteMany :: "string \<Rightarrow> int \<Rightarrow> world \<Rightarrow> world" where
  "deleteMany t s w =
     emit (DbDeleteMany t s)
       (w\<lparr>chatMessages := filter (\<lambda>m. \<not> (m_taskId m = t \<and> m_sequence m > s)) (chatMessages w)\<rparr>)"

subsection \<open>The batch service\<close>

text \<open>
  Modelled from the spec: \<open>databaseBatchService\<close> (its source file is not part of the
  excerpt). The spec describes a per-task pending-write slot with a timer, a batched
  update carrying the parts snapshot, the usage and the terminal-reason snapshot, a
  force-flush operation, and persistence errors of batched writes that are logged and
  not raised. \<open>scheduleAssistantUpdate\<close> overwrites the slot, \<open>flushAssistantUpdate\<close>
  writes the slot to the row and empties it, and \<open>clear\<close> empties the slot; whether
  \<open>clear\<close> writes first is left open by the environment (\<open>clearFlushes\<close>). The timer is
  the input item \<open>TimerFired\<close> of a turn.
\<close>

definition scheduleAssistantUpdate :: "string \<Rightarrow> pending_update \<Rightarrow> world \<Rightarrow> world" where
  "scheduleAssistantUpdate t u w = w\<lparr>pendingUpdates := (pendingUpdates w)(t \<mapsto> u)\<rparr>"

definition applyPending :: "pending_update \<Rightarrow> chat_message \<Rightarrow> chat_message" where
  "applyPending u m =
     m\<lparr>m_metadata :=
         Some (case m_metadata m of
                 None \<Rightarrow> \<lparr>md_isStreaming = True, md_parts = pu_parts u,
                          md_usage = pu_usage u, md_finishReason = pu_finishReason u\<rparr>
               | Some d \<Rightarrow> d\<lparr>md_parts := pu_parts u, md_usage := pu_usage u,
                             md_finishReason := pu_finishReason u\<rparr>)\<rparr>"

definition flushAssistantUpdate :: "string \<Rightarrow> world \<Rightarrow> world" where
  "flushAssistantUpdate t w =
     (case pendingUpdates w t of
        None \<Rightarrow> w
      | Some u \<Rightarrow>
          (let w1 = w\<lparr>pendingUpdates := (pendingUpdates w)(t := None)\<rparr>
           in case findMessage (pu_messageId u) (chatMessages w1) of
                None \<Rightarrow> w1
              | Some m \<Rightarrow>
                  emit (BatchWrite (applyPending u m))
                    (w1\<lparr>chatMessages :=
                          updateRow (pu_messageId u) (applyPending u) (chatMessages w1)\<rparr>)))"

definition clear :: "env \<Rightarrow> string \<Rightarrow> world \<Rightarrow> world" where
  "clear env t w =
     (if clearFlushes env then flushAssistantUpdate t w
      else w\<lparr>pendingUpdates := (pendingUpdates w)(t := None)\<rparr>)"

section \<open>The session registries\<close>

text \<open>\<open>clearQueuedAction\<close> (lines 1503-1505).\<close>

definition clearQueuedAction :: "string \<Rightarrow> world \<Rightarrow> world" where
  "clearQueuedAction t w = w\<lparr>queuedActions := (queuedActions w)(t := None)\<rparr>"

text \<open>
  \<open>stopStream\<close> (lines 1507-1529): mark the stop, abort and unregister the controller if
  there is one, flush the batch slot, set the task status to STOPPED.
\<close>

definition stopStream :: "string \<Rightarrow> world \<Rightarrow> world" where
  "stopStream t w =
     (let w1 = w\<lparr>stopRequested := insert t (stopRequested w)\<rparr>;
          w2 = (case activeStreams w1 t of
                  None \<Rightarrow> w1
                | Some c \<Rightarrow> (emit (Abort c) w1)\<lparr>activeStreams := (activeStreams w1)(t := None)\<rparr>);
          w3 = flushAssistantUpdate t w2
      in updateTaskStatus t STOPPED w3)"

text \<open>
  \<open>cleanupTask\<close> (lines 1858-1885). The body is inside a handler that logs and returns,
  and none of its operations raises, so the result is a state.
\<close>

definition cleanupTask :: "env \<Rightarrow> string \<Rightarrow> world \<Rightarrow> world" where
  "cleanupTask env t w =
     (let w1 = (case activeStreams w t of
                  None \<Rightarrow> w
                | Some c \<Rightarrow> (emit (Abort c) w)\<lparr>activeStreams := (activeStreams w)(t := None)\<rparr>);
          w2 = w1\<lparr>queuedActions := (queuedActions w1)(t := None)\<rparr>
      in clear env t w2)"

section \<open>The streaming reducer\<close>

text \<open>
  The local variables of \<open>_processUserMessageInternal\<close> that the loop over the stream
  updates (lines 951-962). \<open>activeReasoningParts\<close> is a JavaScript \<open>Map\<close>, iterated in
  insertion order: an association list, with \<open>AList.update\<close> for \<open>set\<close> (in place, or
  at the end for a new key), \<open>AList.delete\<close> and \<open>map_of\<close>.
\<close>

type_synonym reasoning = "string \<times> string option"

fun reasoningPartOf :: "reasoning \<Rightarrow> part" where
  "reasoningPartOf (txt, sg) = ReasoningPart txt sg"

record turn_state =
  assistantSequence :: "int option"
  assistantMessageId :: "nat option"
  assistantParts :: "part list"
  usageMetadata :: "usage option"
  finishReason :: "string option"
  hasError :: bool
  activeReasoningParts :: "(nat \<times> reasoning) list"
  reasoningCounter :: nat

definition initialTurnState :: turn_state where
  "initialTurnState =
     \<lparr>assistantSequence = None, assistantMessageId = None, assistantParts = [],
      usageMetadata = None, finishReason = None, hasError = False,
      activeReasoningParts = [], reasoningCounter = 0\<rparr>"

datatype ctl = Continue | Break | Throw exn

text \<open>
  The creation of the assistant row on the first chunk (lines 1001-1013, 1047-1059,
  1099-1111): allocate with \<open>getNextSequence\<close>, then insert under that sequence with the
  parts accumulated so far, marked as streaming.
\<close>

definition createAssistantRow ::
  "string \<Rightarrow> string \<Rightarrow> string \<Rightarrow> turn_state \<times> world \<Rightarrow> turn_state \<times> world" where
  "createAssistantRow t model c sw =
     (case sw of (s, w) \<Rightarrow>
        (let q = getNextSequence t w;
             md = \<lparr>md_isStreaming = True, md_parts = assistantParts s,
                   md_usage = None, md_finishReason = None\<rparr>
         in case saveAssistantMessage t c model (Some q) (Some md) w of
              (row, w') \<Rightarrow>
                (s\<lparr>assistantSequence := Some q, assistantMessageId := Some (m_id row)\<rparr>, w')))"

text \<open>
  \<open>if (assistantMessageId) databaseBatchService.scheduleAssistantUpdate(taskId, {...})\<close>
  with a copy of the parts, the usage and the finish reason of that moment.
\<close>

definition scheduleUpdate :: "string \<Rightarrow> turn_state \<Rightarrow> world \<Rightarrow> world" where
  "scheduleUpdate t s w =
     (case assistantMessageId s of
        None \<Rightarrow> w
      | Some i \<Rightarrow>
          scheduleAssistantUpdate t
            \<lparr>pu_messageId = i, pu_parts = assistantParts s,
             pu_usage = usageMetadata s, pu_finishReason = finishReason s\<rparr> w)"

definition pushPart :: "part \<Rightarrow> turn_state \<Rightarrow> turn_state" where
  "pushPart p s = s\<lparr>assistantParts := assistantParts s @ [p]\<rparr>"

text \<open>The rewriting of rate-limit and retry errors (lines 1196-1206).\<close>

definition userFriendlyError :: "string option \<Rightarrow> string" where
  "userFriendlyError e =
     (let m = or_default e ''Unknown error occurred''
      in if str_includes m ''Too Many Requests'' \<or> str_includes m ''rate limit''
         then ''The model is currently experiencing high demand. Please try again in a few moments or switch to a different model.''
         else if str_includes m ''Failed after 3 attempts''
         then ''The model is temporarily unavailable. Please try again or switch to a different model.''
         else m)"

text \<open>
  The local state after the assignments of the error handler (lines 1192-1214): the finish
  reason, the error flag, the error part appended.
\<close>

definition afterError :: "string option \<Rightarrow> string option \<Rightarrow> turn_state \<Rightarrow> turn_state" where
  "afterError e fr s =
     pushPart (ErrorPart (userFriendlyError e) fr)
       (s\<lparr>finishReason := Some (or_default fr ''error''), hasError := True\<rparr>)"

text \<open>
  The error handler of the loop (lines 1187-1261): with a row, clear the batch slot and
  write the row at once; set the status to FAILED, unregister, empty the slot of queued
  actions; it ends with \<open>break\<close>.
\<close>

definition handleErrorChunk ::
  "env \<Rightarrow> string \<Rightarrow> string option \<Rightarrow> string option \<Rightarrow> turn_state \<times> world \<Rightarrow> ctl \<times> turn_state \<times> world" where
  "handleErrorChunk env t e fr sw =
     (case sw of (s, w) \<Rightarrow>
        (let s2 = afterError e fr s;
             r = (case assistantMessageId s2 of
                    None \<Rightarrow> (None, w)
                  | Some i \<Rightarrow>
                      updateMessage i
                        (\<lambda>m. m\<lparr>m_content := fullContent (assistantParts s2),
                               m_metadata :=
                                 Some \<lparr>md_isStreaming = False, md_parts = assistantParts s2,
                                       md_usage = None, md_finishReason = finishReason s2\<rparr>\<rparr>)
                        (clear env t w))
         in case r of
              (Some x, w1) \<Rightarrow> (Throw x, s2, w1)
            | (None, w1) \<Rightarrow>
                (let w2 = updateTaskStatus t FAILED w1;
                     w3 = w2\<lparr>activeStreams := (activeStreams w2)(t := None),
                             stopRequested := stopRequested w2 - {t}\<rparr>
                 in (Break, s2, clearQueuedAction t w3))))"

text \<open>
  One iteration of the loop body after the stop check (lines 989-1270). The handlers are
  guarded by the chunk type and by the truthiness of the payload; a chunk whose payload is
  missing or empty changes nothing.
\<close>

fun processChunk ::
  "env \<Rightarrow> string \<Rightarrow> string \<Rightarrow> chunk \<Rightarrow> turn_state \<times> world \<Rightarrow> ctl \<times> turn_state \<times> world" where
  "processChunk env t model (Content x) (s, w) =
     (if truthy x then
        (let s1 = pushPart (TextPart (payload x)) s
         in if assistantSequence s1 = None
            then (case createAssistantRow t model (payload x) (s1, w) of
                    (s2, w2) \<Rightarrow> (Continue, s2, w2))
            else (Continue, s1, scheduleUpdate t s1 w))
      else (Continue, s, w))"
| "processChunk env t model (Reasoning x) (s, w) =
     (if truthy x then
        (let currentReasoning =
               (case map_of (activeReasoningParts s) (reasoningCounter s) of
                  None \<Rightarrow> ([], None)
                | Some r \<Rightarrow> r);
             updatedReasoning = (fst currentReasoning @ payload x, snd currentReasoning);
             s1 = s\<lparr>activeReasoningParts :=
                      AList.update (reasoningCounter s) updatedReasoning (activeReasoningParts s)\<rparr>
         in if assistantSequence s1 = None
            then (case createAssistantRow t model (payload x) (s1, w) of
                    (s2, w2) \<Rightarrow> (Continue, s2, w2))
            else (Continue, s1, w))
      else (Continue, s, w))"
| "processChunk env t model (ReasoningSignature x) (s, w) =
     (if truthy x then
        (case map_of (activeReasoningParts s) (reasoningCounter s) of
           None \<Rightarrow> (Continue, s, w)
         | Some currentReasoning \<Rightarrow>
             (let s1 = pushPart (ReasoningPart (fst currentReasoning) x) s;
                  s2 = s1\<lparr>activeReasoningParts :=
                           AList.delete (reasoningCounter s) (activeReasoningParts s1),
                         reasoningCounter := Suc (reasoningCounter s)\<rparr>
              in (Continue, s2, scheduleUpdate t s2 w)))
      else (Continue, s, w))"
| "processChunk env t model (RedactedReasoning x) (s, w) =
     (if truthy x then
        (let s1 = pushPart (RedactedReasoningPart (payload x)) s
         in if assistantSequence s1 = None
            then (case createAssistantRow t model ''[Redacted reasoning]'' (s1, w) of
                    (s2, w2) \<Rightarrow> (Continue, s2, w2))
            else (Continue, s1, scheduleUpdate t s1 w))
      else (Continue, s, w))"
| "processChunk env t model (ToolCall None) (s, w) = (Continue, s, w)"
| "processChunk env t model (ToolCall (Some c)) (s, w) =
     (let s1 = pushPart (ToolCallPart (tc_id c) (tc_name c) (tc_args c)) s
      in (Continue, s1, scheduleUpdate t s1 w))"
| "processChunk env t model (ToolResult None) (s, w) = (Continue, s, w)"
| "processChunk env t model (ToolResult (Some r)) (s, w) =
     (let toolName = resolveToolName (assistantParts s) (tr_id r);
          s1 = pushPart (ToolResultPart (tr_id r) toolName (tr_result r)) s
      in (Continue, s1, scheduleUpdate t s1 w))"
| "processChunk env t model (ErrorChunk e fr) (s, w) = handleErrorChunk env t e fr (s, w)"
| "processChunk env t model (Usage None) (s, w) = (Continue, s, w)"
| "processChunk env t model (Usage (Some u)) (s, w) = (Continue, s\<lparr>usageMetadata := Some u\<rparr>, w)"
| "processChunk env t model OtherChunk (s, w) = (Continue, s, w)"

text \<open>
  The teardown every invocation runs when its turn ends (lines 1368-1369, and 1245-1246,
  1399-1400): the task is unregistered and its stop flag is cleared. Registry and stop
  flag are shared by all invocations on the task.
\<close>

definition unregister :: "string \<Rightarrow> world \<Rightarrow> world" where
  "unregister t w =
     w\<lparr>activeStreams := (activeStreams w)(t := None), stopRequested := stopRequested w - {t}\<rparr>"

text \<open>
  What a turn receives while it runs: the chunks of the completion engine, and, between
  two chunks (the loop is suspended there), the timer of the batch service firing for this
  task, another caller invoking \<open>stopStream\<close> for this task, another invocation on this
  task reaching its teardown, or the stream raising.
\<close>

datatype item = Chunk chunk | TimerFired | StopCalled | OtherTurnEnds | StreamThrows string

text \<open>
  The loop \<open>for await (const chunk of stream)\<close> (lines 974-1271). The result
  \<open>Continue\<close> means the stream was exhausted, \<open>Break\<close> that the loop was left early
  (stop requested, or the error handler), \<open>Throw\<close> that an exception left the loop.
\<close>

fun streamLoop ::
  "env \<Rightarrow> string \<Rightarrow> string \<Rightarrow> item list \<Rightarrow> turn_state \<times> world \<Rightarrow> ctl \<times> turn_state \<times> world" where
  "streamLoop env t model [] (s, w) = (Continue, s, w)"
| "streamLoop env t model (Chunk c # rest) (s, w) =
     (if t \<in> stopRequested w then (Break, s, w)
      else (case processChunk env t model c (s, w) of
              (Continue, s', w') \<Rightarrow> streamLoop env t model rest (s', w')
            | (Break, s', w') \<Rightarrow> (Break, s', w')
            | (Throw x, s', w') \<Rightarrow> (Throw x, s', w')))"
| "streamLoop env t model (TimerFired # rest) (s, w) =
     streamLoop env t model rest (s, flushAssistantUpdate t w)"
| "streamLoop env t model (StopCalled # rest) (s, w) =
     streamLoop env t model rest (s, stopStream t w)"
| "streamLoop env t model (OtherTurnEnds # rest) (s, w) =
     streamLoop env t model rest (s, unregister t w)"
| "streamLoop env t model (StreamThrows m # rest) (s, w) = (Throw (StreamFailure m), s, w)"

section \<open>A turn: gate, preparation, finalisation\<close>

text \<open>
  The arguments of \<open>processUserMessage\<close>; \<open>mainModel\<close> is \<open>context.getMainModel()\<close>.
\<close>

record pum_args =
  taskId :: string
  userMessage :: string
  mainModel :: string
  skipUserMessageSave :: bool
  workspacePath :: "string option"
  queue :: bool

text \<open>
  \<open>handleFollowUpLogic\<close> (lines 723-766): a task whose workspace is inactive is set to
  INITIALIZING; a missing task and every error are logged only.
\<close>

definition handleFollowUpLogic :: "string \<Rightarrow> world \<Rightarrow> world" where
  "handleFollowUpLogic t w =
     (case tasks w t of
        None \<Rightarrow> w
      | Some task \<Rightarrow>
          (if t_initStatus task = INACTIVE then updateTaskStatus t INITIALIZING w else w))"

text \<open>
  The gate of \<open>_processUserMessageInternal\<close> (lines 828-855). With \<open>queue\<close> and an
  active stream the message is stored in the one slot of the task and the function
  returns; without \<open>queue\<close> an active stream is stopped and the slot is emptied.
\<close>

datatype gate_result = Queued world | Proceed world

definition gate :: "pum_args \<Rightarrow> world \<Rightarrow> gate_result" where
  "gate a w =
     (if queue a then
        (if activeStreams w (taskId a) \<noteq> None
         then Queued (w\<lparr>queuedActions :=
                          (queuedActions w)(taskId a \<mapsto>
                             QueuedMessage (userMessage a) (mainModel a) (workspacePath a))\<rparr>)
         else Proceed w)
      else
        (if activeStreams w (taskId a) \<noteq> None
         then (let w1 = stopStream (taskId a) w
               in Proceed (if queuedActions w1 (taskId a) \<noteq> None
                           then w1\<lparr>queuedActions := (queuedActions w1)(taskId a := None)\<rparr>
                           else w1))
         else Proceed w))"

text \<open>
  \<open>getChatHistory\<close> (lines 686-717): the rows of the task by sequence, rows of equal
  sequence by creation time, which is the order of the table.
\<close>

definition getChatHistory :: "string \<Rightarrow> world \<Rightarrow> chat_message list" where
  "getChatHistory t w = sort_key m_sequence (filter (\<lambda>m. m_taskId m = t) (chatMessages w))"

text \<open>
  A system message of the first turn (lines 880-886, 916-922): stored under a sequence
  from \<open>getNextSequence\<close>.
\<close>

definition addSystemMessage :: "string \<Rightarrow> string \<Rightarrow> string \<Rightarrow> world \<Rightarrow> world" where
  "addSystemMessage t model c w =
     snd (saveSystemMessage t c model (Some (getNextSequence t w)) w)"

text \<open>
  From the gate to the loop (lines 857-971): save the user message unless skipped; when
  the history before the last row has no system message, add the wiki message if its
  content is truthy (line 879) and the memory message if there are memories (line 912);
  register a new abort controller for the task.
\<close>

definition beginTurn :: "env \<Rightarrow> pum_args \<Rightarrow> world \<Rightarrow> world" where
  "beginTurn env a w =
     (let t = taskId a;
          w1 = (if skipUserMessageSave a then w
                else snd (saveUserMessage t (userMessage a) (mainModel a) w));
          isFirstMessage = (\<not> list_ex (\<lambda>m. m_role m = SYSTEM) (butlast (getChatHistory t w1)));
          w2 = (if isFirstMessage
                then (let wa = (if truthy (shadowWikiMessage env t)
                                then addSystemMessage t (mainModel a)
                                       (payload (shadowWikiMessage env t)) w1
                                else w1)
                      in case memoryContent env t of
                           None \<Rightarrow> wa
                         | Some memories \<Rightarrow> addSystemMessage t (mainModel a) memories wa)
                else w1)
      in w2\<lparr>activeStreams := (activeStreams w2)(t \<mapsto> nextController w2),
            nextController := Suc (nextController w2)\<rparr>)"

text \<open>
  The reasoning blocks still open when the loop is left are appended, in the order of the
  map (lines 1276-1280).
\<close>

definition finalizeReasoning :: "turn_state \<Rightarrow> turn_state" where
  "finalizeReasoning s =
     s\<lparr>assistantParts := assistantParts s @ map reasoningPartOf (map snd (activeReasoningParts s)),
       activeReasoningParts := []\<rparr>"

text \<open>
  The final update (lines 1283-1317): with a row, the batch slot is cleared; with usage
  the row is written at once, without usage the batch slot is flushed.
\<close>

definition finalUpdate :: "env \<Rightarrow> string \<Rightarrow> turn_state \<Rightarrow> world \<Rightarrow> exn option \<times> world" where
  "finalUpdate env t s w =
     (case assistantMessageId s of
        None \<Rightarrow> (None, w)
      | Some i \<Rightarrow>
          (let w1 = clear env t w
           in case usageMetadata s of
                Some u \<Rightarrow>
                  updateMessage i
                    (\<lambda>m. m\<lparr>m_content := fullContent (assistantParts s),
                           m_metadata :=
                             Some \<lparr>md_isStreaming = False, md_parts = assistantParts s,
                                   md_usage = Some u, md_finishReason = finishReason s\<rparr>,
                           m_usage := Some u,
                           m_finishReason := finishReason s\<rparr>) w1
              | None \<Rightarrow> (None, flushAssistantUpdate t w1)))"

text \<open>
  After the loop (lines 1273-1377): finalise the reasoning, write, classify the end of
  the turn (after an error the status is left as the handler set it), unregister.
\<close>

definition finishTurn :: "env \<Rightarrow> string \<Rightarrow> turn_state \<times> world \<Rightarrow> exn option \<times> turn_state \<times> world" where
  "finishTurn env t sw =
     (case sw of (s, w) \<Rightarrow>
        (let wasStoppedEarly = (t \<in> stopRequested w);
             s1 = finalizeReasoning s
         in case finalUpdate env t s1 w of
              (Some x, w1) \<Rightarrow> (Some x, s1, w1)
            | (None, w1) \<Rightarrow>
                (let w2 = (if hasError s1 then w1
                           else if wasStoppedEarly then updateTaskStatus t STOPPED w1
                           else updateTaskStatus t COMPLETED w1)
                 in (None, s1,
                     w2\<lparr>activeStreams := (activeStreams w2)(t := None),
                        stopRequested := stopRequested w2 - {t}\<rparr>))))"

text \<open>The handler of the turn (lines 1381-1413); the exception is raised again after it.\<close>

definition catchBlock :: "string \<Rightarrow> world \<Rightarrow> world" where
  "catchBlock t w =
     (let w1 = updateTaskStatus t FAILED w;
          w2 = w1\<lparr>activeStreams := (activeStreams w1)(t := None),
                  stopRequested := stopRequested w1 - {t}\<rparr>
      in clearQueuedAction t w2)"

text \<open>
  The protected block up to the call of \<open>processQueuedActions\<close>: the loop from the
  initial local state, then the finalisation, and the handler when either raises.
\<close>

definition runStream ::
  "env \<Rightarrow> string \<Rightarrow> string \<Rightarrow> item list \<Rightarrow> turn_state \<times> world \<Rightarrow> exn option \<times> turn_state \<times> world" where
  "runStream env t model items sw =
     (case streamLoop env t model items sw of
        (Throw x, s, w) \<Rightarrow> (Some x, s, catchBlock t w)
      | (c, s, w) \<Rightarrow>
          (case finishTurn env t (s, w) of
             (Some x, s', w') \<Rightarrow> (Some x, s', catchBlock t w')
           | (None, s', w') \<Rightarrow> (None, s', w')))"

section \<open>Stacked tasks, queued actions, the whole operation\<close>

text \<open>
  \<open>_createStackedTaskInternal\<close> (lines 1674-1785): the new task with its first message,
  the message in the parent under a sequence from \<open>getNextSequence\<close>, the start of the
  new task (\<open>initializeStackedTask\<close>, whose errors are logged only and whose first turn
  runs detached, on a timer), the notification.
\<close>

definition createStackedTaskInternal ::
  "env \<Rightarrow> string \<Rightarrow> string \<Rightarrow> string \<Rightarrow> string \<Rightarrow> world \<Rightarrow> exn option \<times> world" where
  "createStackedTaskInternal env parentTaskId message model userId w =
     (case tasks w parentTaskId of
        None \<Rightarrow> (Some ParentTaskNotFound, w)
      | Some parentTask \<Rightarrow>
          (if t_userId parentTask \<noteq> userId then (Some Unauthorized, w)
           else
             (let newTaskId = generateTaskId env (taskIdCounter w);
                  w1 = w\<lparr>tasks := (tasks w)(newTaskId \<mapsto>
                                      \<lparr>t_userId = userId, t_initStatus = defaultInitStatus env\<rparr>),
                         taskIdCounter := Suc (taskIdCounter w)\<rparr>;
                  w2 = snd (createMessage (newMessage newTaskId USER 1 message model None) w1);
                  parentNextSequence = getNextSequence parentTaskId w2;
                  w3 = snd (createMessage
                              ((newMessage parentTaskId USER parentNextSequence message model None)
                                 \<lparr>m_stackedTaskId := Some newTaskId\<rparr>) w2);
                  w4 = updateTaskStatus newTaskId RUNNING w3
              in (None, emit (EmitQueuedActionProcessing parentTaskId ''stacked-pr'') w4))))"

text \<open>
  \<open>_processUserMessageInternal\<close> (lines 808-1414) and \<open>processQueuedActions\<close> (lines
  1416-1446) call each other: a turn ends by processing the queued action of the task,
  and a queued message is a new turn. Each turn consumes one stream of the list given;
  the result is \<open>None\<close> when a turn is due and no stream is left. A turn returns the
  exception it raises again, if any; \<open>processQueuedActions\<close> removes the action from the
  slot, dispatches it, and only logs what the dispatch raises.
\<close>

fun processUserMessageInternal ::
      "env \<Rightarrow> item list list \<Rightarrow> pum_args \<Rightarrow> world \<Rightarrow> (exn option \<times> world) option"
  and processQueuedActions :: "env \<Rightarrow> item list list \<Rightarrow> string \<Rightarrow> world \<Rightarrow> world option" where
  "processUserMessageInternal env streams a w =
     (case gate a (handleFollowUpLogic (taskId a) w) of
        Queued w1 \<Rightarrow> Some (None, w1)
      | Proceed w1 \<Rightarrow>
          (case streams of
             [] \<Rightarrow> None
           | items # rest \<Rightarrow>
               (case runStream env (taskId a) (mainModel a) items
                       (initialTurnState, beginTurn env a w1) of
                  (Some x, s, w2) \<Rightarrow> Some (Some x, w2)
                | (None, s, w2) \<Rightarrow>
                    (case processQueuedActions env rest (taskId a) w2 of
                       None \<Rightarrow> None
                     | Some w3 \<Rightarrow> Some (None, w3)))))"
| "processQueuedActions env streams t w =
     (case queuedActions w t of
        None \<Rightarrow> Some w
      | Some queuedAction \<Rightarrow>
          (let w1 = w\<lparr>queuedActions := (queuedActions w)(t := None)\<rparr>
           in case queuedAction of
                QueuedMessage message model wp \<Rightarrow>
                  (case processUserMessageInternal env streams
                          \<lparr>taskId = t, userMessage = message, mainModel = model,
                           skipUserMessageSave = False, workspacePath = wp, queue = False\<rparr>
                          (emit (EmitQueuedActionProcessing t ''message'') w1) of
                     None \<Rightarrow> None
                   | Some (r, w2) \<Rightarrow> Some w2)
              | QueuedStackedPR message parentTaskId model userId \<Rightarrow>
                  Some (snd (createStackedTaskInternal env parentTaskId message model userId w1))))"

text \<open>
  \<open>processUserMessage\<close> (lines 771-803) records the model of the task with the model
  context service and calls the internal method.
\<close>

definition processUserMessage ::
  "env \<Rightarrow> item list list \<Rightarrow> pum_args \<Rightarrow> world \<Rightarrow> (exn option \<times> world) option" where
  "processUserMessage env streams a w = processUserMessageInternal env streams a w"

text \<open>
  \<open>editUserMessage\<close> (lines 1531-1620): stop and clear, overwrite the row, read its
  sequence, delete the later rows of the task, run a turn on the new content without
  saving it again. The checkpoint restoration acts on the workspace only. Both branches
  of the model comparison run the turn under \<open>newModel\<close>.
\<close>

definition editUserMessage ::
  "env \<Rightarrow> item list list \<Rightarrow> string \<Rightarrow> nat \<Rightarrow> string \<Rightarrow> string \<Rightarrow> string option \<Rightarrow> world
     \<Rightarrow> (exn option \<times> world) option" where
  "editUserMessage env streams t messageId newContent newModel wp w =
     (let w1 = (if activeStreams w t \<noteq> None then stopStream t w else w);
          w2 = clearQueuedAction t w1
      in case updateMessage messageId
                (\<lambda>m. m\<lparr>m_content := newContent, m_llmModel := newModel, m_edited := True\<rparr>) w2 of
           (Some x, w3) \<Rightarrow> Some (Some x, w3)
         | (None, w3) \<Rightarrow>
             (case findMessage messageId (chatMessages w3) of
                None \<Rightarrow> Some (Some EditedMessageNotFound, w3)
              | Some editedMessage \<Rightarrow>
                  processUserMessage env streams
                    \<lparr>taskId = t, userMessage = newContent, mainModel = newModel,
                     skipUserMessageSave = True, workspacePath = wp, queue = False\<rparr>
                    (deleteMany t (m_sequence editedMessage) w3)))"

section \<open>Notions used in the statements\<close>

subsection \<open>Rows, writes and status\<close>

text \<open>A row with the identifier is in the table.\<close>

definition hasRow :: "nat \<Rightarrow> world \<Rightarrow> bool" where
  "hasRow i w = (findMessage i (chatMessages w) \<noteq> None)"

text \<open>The immediate writes of the chat service, and the writes of the batch service.\<close>

fun isDbUpdate :: "effect \<Rightarrow> bool" where
  "isDbUpdate (DbUpdate m) = True"
| "isDbUpdate e = False"

fun isBatchWrite :: "effect \<Rightarrow> bool" where
  "isBatchWrite (BatchWrite m) = True"
| "isBatchWrite e = False"

text \<open>The status of a task: the last one written with \<open>updateTaskStatus\<close>.\<close>

fun statusAfter :: "string \<Rightarrow> effect \<Rightarrow> task_status option \<Rightarrow> task_status option" where
  "statusAfter t (StatusUpdate t' st) cur = (if t' = t then Some st else cur)"
| "statusAfter t e cur = cur"

definition taskStatus :: "string \<Rightarrow> world \<Rightarrow> task_status option" where
  "taskStatus t w = fold (statusAfter t) (trace w) None"



text \<open>What identifies a row and places it in a conversation.\<close>

definition rowKey :: "chat_message \<Rightarrow> nat \<times> string \<times> int" where
  "rowKey m = (m_id m, m_taskId m, m_sequence m)"

definition rowKeys :: "world \<Rightarrow> (nat \<times> string \<times> int) list" where
  "rowKeys w = map rowKey (chatMessages w)"

text \<open>Every identifier in the table is below the counter of the next insert.\<close>

definition idsBelow :: "world \<Rightarrow> bool" where
  "idsBelow w = (\<forall>m \<in> set (chatMessages w). m_id m < nextMessageId w)"

text \<open>
  From \<open>w\<close> to \<open>w'\<close> no row was removed or moved to another task or sequence, and the
  rows added carry identifiers that were not in use.
\<close>

definition extends :: "world \<Rightarrow> world \<Rightarrow> bool" where
  "extends w w' =
     (nextMessageId w \<le> nextMessageId w' \<and>
      (\<exists>new. rowKeys w' = rowKeys w @ new \<and> (\<forall>k \<in> set new. nextMessageId w \<le> fst k)))"

subsection \<open>Reasoning blocks\<close>

text \<open>A part that holds a reasoning block.\<close>

fun isReasoningPart :: "part \<Rightarrow> bool" where
  "isReasoningPart (ReasoningPart txt sg) = True"
| "isReasoningPart p = False"

text \<open>
  The items that close or cut the open reasoning block: a signature that the guard lets
  through, an error chunk, a stop request, an exception of the stream. The timer and the
  teardown of another invocation do not.
\<close>

fun interrupts :: "item \<Rightarrow> bool" where
  "interrupts (Chunk (ReasoningSignature x)) = truthy x"
| "interrupts (Chunk (ErrorChunk e fr)) = True"
| "interrupts StopCalled = True"
| "interrupts (StreamThrows m) = True"
| "interrupts it = False"

text \<open>The reasoning text a list of items carries, in order.\<close>

fun reasoningOf :: "item \<Rightarrow> string" where
  "reasoningOf (Chunk (Reasoning (Some x))) = x"
| "reasoningOf it = []"

definition reasoningText :: "item list \<Rightarrow> string" where
  "reasoningText items = concat (map reasoningOf items)"

text \<open>
  The open reasoning block holds the text \<open>txt\<close>: no block when the text is empty,
  and otherwise one block, under the current counter, without signature.
\<close>

definition openBlock :: "turn_state \<Rightarrow> string \<Rightarrow> bool" where
  "openBlock s txt =
     (if txt = [] then activeReasoningParts s = []
      else activeReasoningParts s = [(reasoningCounter s, (txt, None))])"

subsection \<open>The parts an event appends\<close>


subsection \<open>The invariant of a turn\<close>




section \<open>Example states\<close>

definition emptyWorld :: world where
  "emptyWorld =
     \<lparr>activeStreams = Map.empty, stopRequested = {}, queuedActions = Map.empty,
      nextController = 0, chatMessages = [], nextMessageId = 0, tasks = Map.empty,
      taskIdCounter = 0, pendingUpdates = Map.empty, trace = []\<rparr>"

definition exampleEnv :: env where
  "exampleEnv =
     \<lparr>shadowWikiMessage = (\<lambda>t. None), memoryContent = (\<lambda>t. None),
      generateTaskId = (\<lambda>n. ''stacked''), defaultInitStatus = ACTIVE,
      clearFlushes = False\<rparr>"

definition exampleCallState :: turn_state where
  "exampleCallState = pushPart (ToolCallPart ''call-1'' ''read_file'' ''{}'') initialTurnState"

definition exampleQueuedWorld :: world where
  "exampleQueuedWorld =
     emptyWorld\<lparr>queuedActions := [''T'' \<mapsto> QueuedStackedPR ''follow up'' ''missing-parent'' ''m'' ''user-1'']\<rparr>"

definition exampleActiveWorld :: world where
  "exampleActiveWorld =
     emptyWorld\<lparr>activeStreams := [''T'' \<mapsto> 0], nextController := 1,
                queuedActions := [''T'' \<mapsto> QueuedMessage ''earlier'' ''m'' None]\<rparr>"

definition exampleArgs :: pum_args where
  "exampleArgs =
     \<lparr>taskId = ''T'', userMessage = ''next'', mainModel = ''m'', skipUserMessageSave = False,
      workspacePath = None, queue = False\<rparr>"

definition exampleUsage :: usage where
  "exampleUsage = \<lparr>promptTokens = 12, completionTokens = 2, totalTokens = 14\<rparr>"

definition exampleErrorWorld :: world where
  "exampleErrorWorld = emptyWorld\<lparr>activeStreams := [''T'' \<mapsto> 0], nextController := 1,
       queuedActions := [''T'' \<mapsto> QueuedMessage ''later'' ''m'' None]\<rparr>"

text \<open>The state of a turn after one content chunk, with an action queued for the task.\<close>

definition exampleStreamingState :: turn_state where
  "exampleStreamingState =
     fst (snd (processChunk exampleEnv ''T'' ''m'' (Content (Some ''a'')) (initialTurnState, exampleErrorWorld)))"

definition exampleStreamingWorld :: world where
  "exampleStreamingWorld =
     snd (snd (processChunk exampleEnv ''T'' ''m'' (Content (Some ''a'')) (initialTurnState, exampleErrorWorld)))"

text \<open>
  The state after an immediate message ''next'' for the task of that turn has run its own
  turn, on a stream of one content chunk, while the first turn was waiting for its next
  chunk.
\<close>

definition exampleAfterSubmit :: world where
  "exampleAfterSubmit =
     snd (snd (runStream exampleEnv ''T'' ''m'' [Chunk (Content (Some ''b''))]
       (initialTurnState,
        beginTurn exampleEnv exampleArgs
          (clearQueuedAction ''T'' (stopStream ''T'' exampleStreamingWorld)))))"

definition exampleReasoningStream :: "item list" where
  "exampleReasoningStream =
     [Chunk (Reasoning (Some ''think'')), Chunk (Content (Some ''a'')), TimerFired,
      Chunk (Reasoning (Some ''ing''))]"


definition exampleRow :: "nat \<Rightarrow> string \<Rightarrow> int \<Rightarrow> chat_message" where
  "exampleRow i t q = (newMessage t USER q ''text'' ''m'' None)\<lparr>m_id := i\<rparr>"

definition exampleEditWorld :: world where
  "exampleEditWorld =
     emptyWorld\<lparr>chatMessages := [exampleRow 0 ''T'' 1, exampleRow 1 ''T'' 2, exampleRow 2 ''T'' 3,
                                  exampleRow 3 ''U'' 5],
                nextMessageId := 4\<rparr>"

section \<open>Sequence allocation\<close>

lemma fold_max_ge: "(q::int) \<le> fold max qs q \<and> (\<forall>x \<in> set qs. x \<le> fold max qs q)"
proof (induction qs arbitrary: q)
  case Nil
  show ?case by simp
next
  case (Cons a qs)
  have "max a q \<le> fold max qs (max a q)" and "\<forall>x \<in> set qs. x \<le> fold max qs (max a q)"
    using Cons.IH [of "max a q"] by simp_all
  then show ?case by auto
qed

lemma lastSequence_bounds:
  assumes "m \<in> set ms" and "m_taskId m = t"
  shows "\<exists>q. lastSequence t ms = Some q \<and> m_sequence m \<le> q"
proof -
  have mem: "m_sequence m \<in> set (map m_sequence (filter (\<lambda>m. m_taskId m = t) ms))"
    using assms by auto
  show ?thesis
  proof (cases "map m_sequence (filter (\<lambda>m. m_taskId m = t) ms)")
    case Nil
    with mem show ?thesis by simp
  next
    case (Cons q qs)
    with mem fold_max_ge [of q qs] show ?thesis
      by (auto simp: lastSequence_def)
  qed
qed

text \<open>
  The fused operation allocates above every sequence of the task: the row it inserts has
  a sequence greater than that of every row the task already has.
\<close>

lemma createMessageWithAtomicSequence_above:
  assumes "m \<in> set (chatMessages w)" and "m_taskId m = t"
  shows "m_sequence m < m_sequence (fst (createMessageWithAtomicSequence t r c model md w))"
proof -
  obtain q where q: "lastSequence t (chatMessages w) = Some q" "m_sequence m \<le> q"
    using lastSequence_bounds [OF assms] by blast
  then show ?thesis
    by (simp add: createMessageWithAtomicSequence_def createMessage_def newMessage_def
        nextSequenceOf_def Let_def)
qed

text \<open>
  C1. The claim is that all allocations of one task yield pairwise distinct sequence
  numbers because read and insert are one transaction. For \<open>getNextSequence\<close> the
  transaction holds the read only: two allocations made before either insert return the
  same number, and the two inserts (the way the reducer and the stacked-task path use the
  allocator) leave two different rows of the task with one sequence.
\<close>

theorem getNextSequence_duplicate:
  "(let a = getNextSequence t w;
        b = getNextSequence t w;
        r1 = fst (saveAssistantMessage t c1 model (Some a) md w);
        w1 = snd (saveAssistantMessage t c1 model (Some a) md w);
        r2 = fst (saveSystemMessage t c2 model (Some b) w1);
        w2 = snd (saveSystemMessage t c2 model (Some b) w1)
    in a = b \<and> m_sequence r1 = m_sequence r2 \<and> m_taskId r1 = t \<and> m_taskId r2 = t \<and>
       m_id r1 \<noteq> m_id r2 \<and> r1 \<in> set (chatMessages w2) \<and> r2 \<in> set (chatMessages w2))"
  by (simp add: Let_def saveAssistantMessage_def saveSystemMessage_def createMessage_def
      newMessage_def emit_def)

section \<open>Tool results\<close>

lemma assistantParts_pushPart: "assistantParts (pushPart p s) = assistantParts s @ [p]"
  by (simp add: pushPart_def)

lemma find_no_call:
  "\<forall>n a. ToolCallPart i n a \<notin> set ps \<Longrightarrow> find (isCallFor i) ps = None"
proof (induction ps)
  case Nil
  show ?case by simp
next
  case (Cons p ps)
  then show ?case by (cases p) auto
qed

lemma find_first_call:
  "\<forall>n' a'. ToolCallPart i n' a' \<notin> set pre \<Longrightarrow>
     find (isCallFor i) (pre @ ToolCallPart i n a # post) = Some (ToolCallPart i n a)"
proof (induction pre)
  case Nil
  show ?case by simp
next
  case (Cons p pre)
  then show ?case by (cases p) auto
qed

text \<open>
  C8. A tool-result chunk never leaves the loop and never raises: the handler continues.
  When no tool-call part of the accumulated list has the identifier of the result, the
  part appended has the empty tool name; when there is one, the part appended has the
  tool name of the first such call.
\<close>

theorem tool_result_name:
  "fst (processChunk env t model (ToolResult (Some r)) (s, w)) = Continue \<and>
   ((\<forall>n a. ToolCallPart (tr_id r) n a \<notin> set (assistantParts s)) \<longrightarrow>
      assistantParts (fst (snd (processChunk env t model (ToolResult (Some r)) (s, w)))) =
        assistantParts s @ [ToolResultPart (tr_id r) [] (tr_result r)]) \<and>
   (\<forall>pre n a post.
      assistantParts s = pre @ ToolCallPart (tr_id r) n a # post \<and>
      (\<forall>n' a'. ToolCallPart (tr_id r) n' a' \<notin> set pre) \<longrightarrow>
      assistantParts (fst (snd (processChunk env t model (ToolResult (Some r)) (s, w)))) =
        assistantParts s @ [ToolResultPart (tr_id r) n (tr_result r)])"
  by (auto simp: Let_def assistantParts_pushPart resolveToolName_def find_no_call
      find_first_call simp del: find.simps)

theorem tool_result_name_witness:
  "assistantParts (fst (snd (processChunk exampleEnv ''T'' ''m''
      (ToolResult (Some \<lparr>tr_id = ''call-2'', tr_result = ''ok''\<rparr>)) (exampleCallState, emptyWorld)))) =
     [ToolCallPart ''call-1'' ''read_file'' ''{}'', ToolResultPart ''call-2'' [] ''ok''] \<and>
   assistantParts (fst (snd (processChunk exampleEnv ''T'' ''m''
      (ToolResult (Some \<lparr>tr_id = ''call-1'', tr_result = ''ok''\<rparr>)) (exampleCallState, emptyWorld)))) =
     [ToolCallPart ''call-1'' ''read_file'' ''{}'', ToolResultPart ''call-1'' ''read_file'' ''ok'']"
proof -
  have parts: "assistantParts exampleCallState = [ToolCallPart ''call-1'' ''read_file'' ''{}'']"
    by (simp add: exampleCallState_def pushPart_def initialTurnState_def)
  have none: "\<forall>n a. ToolCallPart (tr_id \<lparr>tr_id = ''call-2'', tr_result = ''ok''\<rparr>) n a
                 \<notin> set (assistantParts exampleCallState)"
    by (simp add: parts)
  have one: "assistantParts exampleCallState =
               [] @ ToolCallPart (tr_id \<lparr>tr_id = ''call-1'', tr_result = ''ok''\<rparr>) ''read_file'' ''{}'' # [] \<and>
             (\<forall>n' a'. ToolCallPart (tr_id \<lparr>tr_id = ''call-1'', tr_result = ''ok''\<rparr>) n' a' \<notin> set [])"
    by (simp add: parts)
  from none
    tool_result_name [of exampleEnv "''T''" "''m''" "\<lparr>tr_id = ''call-2'', tr_result = ''ok''\<rparr>"
      exampleCallState emptyWorld]
  have first:
    "assistantParts (fst (snd (processChunk exampleEnv ''T'' ''m''
        (ToolResult (Some \<lparr>tr_id = ''call-2'', tr_result = ''ok''\<rparr>)) (exampleCallState, emptyWorld)))) =
       assistantParts exampleCallState @ [ToolResultPart ''call-2'' [] ''ok'']"
    by simp
  from one
    tool_result_name [of exampleEnv "''T''" "''m''" "\<lparr>tr_id = ''call-1'', tr_result = ''ok''\<rparr>"
      exampleCallState emptyWorld]
  have second:
    "assistantParts (fst (snd (processChunk exampleEnv ''T'' ''m''
        (ToolResult (Some \<lparr>tr_id = ''call-1'', tr_result = ''ok''\<rparr>)) (exampleCallState, emptyWorld)))) =
       assistantParts exampleCallState @ [ToolResultPart ''call-1'' ''read_file'' ''ok'']"
    by (metis tool_result.select_convs(1,2))
  from first second show ?thesis by (simp add: parts)
qed

section \<open>Cleanup\<close>

text \<open>
  C9. \<open>cleanupTask\<close> returns a state (nothing is raised), after it the task has no
  registered stream, no queued action and no pending batched write, and a second call
  changes nothing: not the registries, not the batch slot, and it issues no further
  call (the trace is the same).
\<close>

theorem cleanupTask_idempotent:
  "cleanupTask env t (cleanupTask env t w) = cleanupTask env t w \<and>
   activeStreams (cleanupTask env t w) t = None \<and>
   queuedActions (cleanupTask env t w) t = None \<and>
   pendingUpdates (cleanupTask env t w) t = None"
  by (auto simp: cleanupTask_def clear_def flushAssistantUpdate_def emit_def Let_def
      split: option.splits)

section \<open>Queued actions\<close>

declare processUserMessageInternal.simps [simp del] processQueuedActions.simps [simp del]

lemma queuedActions_catchBlock: "queuedActions (catchBlock t w) t = None"
  by (simp add: catchBlock_def clearQueuedAction_def updateTaskStatus_def emit_def Let_def)

lemma queuedActions_createStacked:
  "queuedActions (snd (createStackedTaskInternal env p m model u w)) = queuedActions w"
  by (simp add: createStackedTaskInternal_def createMessage_def updateTaskStatus_def emit_def Let_def split: option.splits)

lemma runStream_exn_queue:
  "runStream env t model items sw = (Some x, s, w) \<Longrightarrow> queuedActions w t = None"
  by (auto simp: runStream_def queuedActions_catchBlock split: prod.splits ctl.splits option.splits)

lemma gate_Queued_queue: "gate a w = Queued w1 \<Longrightarrow> queue a"
  by (simp add: gate_def Let_def split: if_splits)

lemma slot_empty_after:
  "processUserMessageInternal env streams a w = Some (x, w') \<Longrightarrow> \<not> queue a \<Longrightarrow> queuedActions w' (taskId a) = None"
  "processQueuedActions env streams t w = Some w' \<Longrightarrow> queuedActions w' t = None"
proof (induction env streams a w and env streams t w arbitrary: x w' and w' rule: processUserMessageInternal_processQueuedActions.induct)
  case (1 env streams a w)
  note eq = "1.prems"(1) [unfolded processUserMessageInternal.simps [of env streams a w]]
  show ?case
  proof (cases "gate a (handleFollowUpLogic (taskId a) w)")
    case (Queued w1)
    with "1.prems"(2) show ?thesis using gate_Queued_queue by blast
  next
    case (Proceed w1)
    show ?thesis
    proof (cases streams)
      case Nil
      with eq Proceed show ?thesis by simp
    next
      case (Cons items rest)
      obtain r s w2 where run: "runStream env (taskId a) (mainModel a) items (initialTurnState, beginTurn env a w1) = (r, s, w2)"
        by (metis prod_cases3)
      show ?thesis
      proof (cases r)
        case None
        with eq Proceed Cons run have "processQueuedActions env rest (taskId a) w2 = Some w'"
          by (simp split: option.splits)
        with "1.IH" [OF Proceed Cons run [symmetric] None refl] show ?thesis by simp
      next
        case (Some e)
        with eq Proceed Cons run have same: "w' = w2" by simp
        from run Some have "runStream env (taskId a) (mainModel a) items
            (initialTurnState, beginTurn env a w1) = (Some e, s, w2)" by simp
        from runStream_exn_queue [OF this] same show ?thesis by simp
      qed
    qed
  qed
next
  case (2 env streams t w)
  note eq = "2.prems" [unfolded processQueuedActions.simps [of env streams t w]]
  show ?case
  proof (cases "queuedActions w t")
    case None
    with eq show ?thesis by simp
  next
    case (Some queuedAction)
    show ?thesis
    proof (cases queuedAction)
      case (QueuedMessage message model wp)
      with eq Some obtain r where
        "processUserMessageInternal env streams
           \<lparr>taskId = t, userMessage = message, mainModel = model,
            skipUserMessageSave = False, workspacePath = wp, queue = False\<rparr>
           (emit (EmitQueuedActionProcessing t ''message'') (w\<lparr>queuedActions := (queuedActions w)(t := None)\<rparr>)) = Some (r, w')"
        by (auto simp: Let_def split: option.splits)
      from "2.IH" [OF Some refl QueuedMessage this] show ?thesis by simp
    next
      case (QueuedStackedPR message parentTaskId model userId)
      with eq Some show ?thesis
        by (auto simp: Let_def queuedActions_createStacked)
    qed
  qed
qed

lemma queuedActions_flush [simp]: "queuedActions (flushAssistantUpdate t w) = queuedActions w"
  by (simp add: flushAssistantUpdate_def emit_def Let_def split: option.splits)

lemma queuedActions_clear [simp]: "queuedActions (clear env t w) = queuedActions w"
  by (simp add: clear_def)

lemma queuedActions_stopStream [simp]: "queuedActions (stopStream t w) = queuedActions w"
  by (simp add: stopStream_def updateTaskStatus_def emit_def Let_def split: option.splits)

lemma queuedActions_createMessage [simp]: "queuedActions (snd (createMessage m w)) = queuedActions w"
  by (simp add: createMessage_def emit_def Let_def)

lemma queuedActions_updateMessage [simp]: "queuedActions (snd (updateMessage i f w)) = queuedActions w"
  by (simp add: updateMessage_def emit_def split: option.splits)

lemma queuedActions_scheduleUpdate [simp]: "queuedActions (scheduleUpdate t s w) = queuedActions w"
  by (simp add: scheduleUpdate_def scheduleAssistantUpdate_def split: option.splits)

lemma queuedActions_createAssistantRow [simp]:
  "queuedActions (snd (createAssistantRow t model c (s, w))) = queuedActions w"
  by (simp add: createAssistantRow_def saveAssistantMessage_def Let_def split: prod.splits)
     (metis queuedActions_createMessage snd_conv)

lemma queuedActions_beginTurn [simp]: "queuedActions (beginTurn env a w) = queuedActions w"
  by (simp add: beginTurn_def addSystemMessage_def saveSystemMessage_def saveUserMessage_def
      createMessageWithAtomicSequence_def Let_def split: option.splits)

lemma slot_handleErrorChunk:
  "queuedActions w t = None \<Longrightarrow> queuedActions (snd (snd (handleErrorChunk env t e fr (s, w)))) t = None"
  apply (simp add: handleErrorChunk_def Let_def clearQueuedAction_def updateTaskStatus_def emit_def split: option.splits prod.splits)
  by (metis queuedActions_clear queuedActions_updateMessage snd_conv)

lemma slot_createAssistantRow:
  "queuedActions w t = None \<Longrightarrow> createAssistantRow t' model c (s, w) = (s', w') \<Longrightarrow> queuedActions w' t = None"
  using queuedActions_createAssistantRow [of t' model c s w] by simp

lemma slot_processChunk:
  "queuedActions w t = None \<Longrightarrow> queuedActions (snd (snd (processChunk env t model c (s, w)))) t = None"
  by (cases "(env, t, model, c, (s, w))" rule: processChunk.cases)
     (auto simp: Let_def slot_handleErrorChunk split: option.splits prod.splits dest: slot_createAssistantRow)

lemma slot_streamLoop:
  "queuedActions w t = None \<Longrightarrow> queuedActions (snd (snd (streamLoop env t model items (s, w)))) t = None"
proof (induction items arbitrary: s w)
  case Nil
  then show ?case by simp
next
  case (Cons i items)
  show ?case
  proof (cases i)
    case (Chunk c)
    obtain k s1 w1 where step: "processChunk env t model c (s, w) = (k, s1, w1)"
      by (metis prod_cases3)
    with slot_processChunk [OF Cons.prems, of env model c s] have "queuedActions w1 t = None" by simp
    with Cons.IH [of w1 s1] Cons.prems Chunk step show ?thesis
      by (cases k) auto
  next
    case TimerFired
    with Cons show ?thesis by simp
  next
    case StopCalled
    with Cons show ?thesis by simp
  next
    case OtherTurnEnds
    with Cons show ?thesis by (simp add: unregister_def)
  next
    case (StreamThrows m)
    with Cons show ?thesis by simp
  qed
qed

lemma slot_finishTurn:
  "queuedActions w t = None \<Longrightarrow> queuedActions (snd (snd (finishTurn env t (s, w)))) t = None"
  apply (simp add: finishTurn_def finalUpdate_def Let_def updateTaskStatus_def emit_def split: option.splits prod.splits)
  by (metis queuedActions_clear queuedActions_updateMessage snd_conv)

lemma slot_runStream:
  assumes "queuedActions w t = None"
  shows "queuedActions (snd (snd (runStream env t model items (s, w)))) t = None"
proof -
  obtain k s1 w1 where loop: "streamLoop env t model items (s, w) = (k, s1, w1)"
    by (metis prod_cases3)
  with slot_streamLoop [OF assms, of env model items s] have w1: "queuedActions w1 t = None"
    by simp
  obtain r s2 w2 where fin: "finishTurn env t (s1, w1) = (r, s2, w2)"
    by (metis prod_cases3)
  with slot_finishTurn [OF w1, of env s1] have "queuedActions w2 t = None"
    by simp
  with loop fin show ?thesis
    by (cases k; cases r) (simp_all add: runStream_def queuedActions_catchBlock)
qed

lemma processQueuedActions_empty:
  "queuedActions w t = None \<Longrightarrow> processQueuedActions env streams t w = Some w"
  by (simp add: processQueuedActions.simps)

lemma gate_not_queue:
  "\<not> queue a \<Longrightarrow> \<exists>w1. gate a w = Proceed w1 \<and> (queuedActions w (taskId a) = None \<longrightarrow> queuedActions w1 (taskId a) = None)"
  by (simp add: gate_def Let_def)

lemma queuedActions_handleFollowUpLogic [simp]:
  "queuedActions (handleFollowUpLogic t w) = queuedActions w"
  by (simp add: handleFollowUpLogic_def updateTaskStatus_def emit_def split: option.splits)

lemma turn_returns:
  assumes "\<not> queue a" and "queuedActions w (taskId a) = None"
  shows "\<exists>r. processUserMessageInternal env (items # rest) a w = Some r"
proof -
  from gate_not_queue [OF assms(1), of "handleFollowUpLogic (taskId a) w"] assms(2)
  obtain w1 where g: "gate a (handleFollowUpLogic (taskId a) w) = Proceed w1"
    and q1: "queuedActions w1 (taskId a) = None"
    by auto
  obtain r s w2 where run: "runStream env (taskId a) (mainModel a) items (initialTurnState, beginTurn env a w1) = (r, s, w2)"
    by (metis prod_cases3)
  from q1 have "queuedActions (beginTurn env a w1) (taskId a) = None" by simp
  from slot_runStream [OF this, of env "mainModel a" items initialTurnState] run
  have "queuedActions w2 (taskId a) = None" by simp
  then have "processQueuedActions env rest (taskId a) w2 = Some w2"
    by (rule processQueuedActions_empty)
  with g run show ?thesis
    by (cases r) (simp_all add: processUserMessageInternal.simps)
qed

lemma processQueuedActions_returns:
  assumes "streams \<noteq> []"
  shows "\<exists>w'. processQueuedActions env streams t w = Some w'"
proof (cases "queuedActions w t")
  case None
  then show ?thesis by (simp add: processQueuedActions_empty)
next
  case (Some queuedAction)
  show ?thesis
  proof (cases queuedAction)
    case (QueuedMessage message model wp)
    from assms obtain items rest where st: "streams = items # rest" by (cases streams) auto
    have "\<exists>r. processUserMessageInternal env (items # rest)
           \<lparr>taskId = t, userMessage = message, mainModel = model,
            skipUserMessageSave = False, workspacePath = wp, queue = False\<rparr>
           (emit (EmitQueuedActionProcessing t ''message'') (w\<lparr>queuedActions := (queuedActions w)(t := None)\<rparr>)) = Some r"
      by (rule turn_returns) (simp_all add: emit_def)
    with Some QueuedMessage st show ?thesis
      by (auto simp: processQueuedActions.simps Let_def)
  next
    case (QueuedStackedPR message parentTaskId model userId)
    with Some show ?thesis by (simp add: processQueuedActions.simps Let_def)
  qed
qed

text \<open>
  C10. \<open>processQueuedActions\<close> returns whenever a stream is available for the turn of a
  queued message (a stacked task needs none). After it the slot of the task is empty and
  a further call does nothing, so an action is dispatched at most once. The dispatch runs
  on the state from which the action has already been removed, and when it raises (a
  turn that raises again, a stacked task whose creation fails) \<open>processQueuedActions\<close>
  still returns normally, with the state the dispatch left: the exception is dropped and
  the action is not put back.
\<close>

theorem processQueuedActions_once:
  "(streams \<noteq> [] \<longrightarrow> (\<exists>w'. processQueuedActions env streams t w = Some w')) \<and>
   (\<forall>w'. processQueuedActions env streams t w = Some w' \<longrightarrow>
      queuedActions w' t = None \<and> (\<forall>streams'. processQueuedActions env streams' t w' = Some w')) \<and>
   (\<forall>message model wp x w'.
      queuedActions w t = Some (QueuedMessage message model wp) \<and>
      processUserMessageInternal env streams
        \<lparr>taskId = t, userMessage = message, mainModel = model,
         skipUserMessageSave = False, workspacePath = wp, queue = False\<rparr>
        (emit (EmitQueuedActionProcessing t ''message'')
           (w\<lparr>queuedActions := (queuedActions w)(t := None)\<rparr>)) = Some (Some x, w') \<longrightarrow>
      processQueuedActions env streams t w = Some w') \<and>
   (\<forall>message parentTaskId model userId x w'.
      queuedActions w t = Some (QueuedStackedPR message parentTaskId model userId) \<and>
      createStackedTaskInternal env parentTaskId message model userId
        (w\<lparr>queuedActions := (queuedActions w)(t := None)\<rparr>) = (Some x, w') \<longrightarrow>
      processQueuedActions env streams t w = Some w')"
proof (intro conjI allI impI)
  assume "streams \<noteq> []"
  then show "\<exists>w'. processQueuedActions env streams t w = Some w'"
    by (rule processQueuedActions_returns)
next
  fix w' assume "processQueuedActions env streams t w = Some w'"
  then show "queuedActions w' t = None" by (rule slot_empty_after(2))
next
  fix w' streams' assume "processQueuedActions env streams t w = Some w'"
  then have "queuedActions w' t = None" by (rule slot_empty_after(2))
  then show "processQueuedActions env streams' t w' = Some w'"
    by (rule processQueuedActions_empty)
next
  fix message model wp x w'
  assume "queuedActions w t = Some (QueuedMessage message model wp) \<and>
      processUserMessageInternal env streams
        \<lparr>taskId = t, userMessage = message, mainModel = model,
         skipUserMessageSave = False, workspacePath = wp, queue = False\<rparr>
        (emit (EmitQueuedActionProcessing t ''message'')
           (w\<lparr>queuedActions := (queuedActions w)(t := None)\<rparr>)) = Some (Some x, w')"
  then show "processQueuedActions env streams t w = Some w'"
    by (simp add: processQueuedActions.simps Let_def)
next
  fix message parentTaskId model userId x w'
  assume "queuedActions w t = Some (QueuedStackedPR message parentTaskId model userId) \<and>
      createStackedTaskInternal env parentTaskId message model userId
        (w\<lparr>queuedActions := (queuedActions w)(t := None)\<rparr>) = (Some x, w')"
  then show "processQueuedActions env streams t w = Some w'"
    by (simp add: processQueuedActions.simps Let_def)
qed

theorem processQueuedActions_once_witness:
  "processQueuedActions exampleEnv [] ''T'' exampleQueuedWorld = Some emptyWorld \<and>
   processQueuedActions exampleEnv [] ''T'' emptyWorld = Some emptyWorld \<and>
   (\<exists>w'. processQueuedActions exampleEnv [[]] ''T'' exampleQueuedWorld = Some w')"
proof -
  have slot: "queuedActions exampleQueuedWorld ''T'' =
      Some (QueuedStackedPR ''follow up'' ''missing-parent'' ''m'' ''user-1'')"
    by (simp add: exampleQueuedWorld_def)
  have removed: "exampleQueuedWorld\<lparr>queuedActions := (queuedActions exampleQueuedWorld)(''T'' := None)\<rparr> = emptyWorld"
    by (simp add: exampleQueuedWorld_def emptyWorld_def)
  have raised: "createStackedTaskInternal exampleEnv ''missing-parent'' ''follow up'' ''m'' ''user-1''
      (exampleQueuedWorld\<lparr>queuedActions := (queuedActions exampleQueuedWorld)(''T'' := None)\<rparr>) =
      (Some ParentTaskNotFound, emptyWorld)"
    by (simp add: removed) (simp add: createStackedTaskInternal_def emptyWorld_def)
  note inst = processQueuedActions_once [of _ exampleEnv "''T''" exampleQueuedWorld]
  from inst [of "[]"] slot raised
  have first: "processQueuedActions exampleEnv [] ''T'' exampleQueuedWorld = Some emptyWorld"
    by blast
  with inst [of "[]"] have second: "processQueuedActions exampleEnv [] ''T'' emptyWorld = Some emptyWorld"
    by blast
  from inst [of "[[]]"] have third: "\<exists>w'. processQueuedActions exampleEnv [[]] ''T'' exampleQueuedWorld = Some w'"
    by blast
  from first second third show ?thesis by simp
qed

section \<open>Submitting while a stream is active\<close>

lemma activeStreams_handleFollowUpLogic [simp]:
  "activeStreams (handleFollowUpLogic t w) = activeStreams w"
  by (simp add: handleFollowUpLogic_def updateTaskStatus_def emit_def split: option.splits)

lemma trace_flush_prefix: "prefix (trace w) (trace (flushAssistantUpdate t w))"
  by (simp add: flushAssistantUpdate_def emit_def Let_def split: option.splits)

lemma activeStreams_flush [simp]: "activeStreams (flushAssistantUpdate t w) = activeStreams w"
  by (simp add: flushAssistantUpdate_def emit_def Let_def split: option.splits)

lemma stopRequested_flush [simp]: "stopRequested (flushAssistantUpdate t w) = stopRequested w"
  by (simp add: flushAssistantUpdate_def emit_def Let_def split: option.splits)

lemma stopStream_active:
  assumes "activeStreams w t = Some c"
  shows "activeStreams (stopStream t w) t = None"
    and "t \<in> stopRequested (stopStream t w)"
    and "last (trace (stopStream t w)) = StatusUpdate t STOPPED"
    and "prefix (trace w @ [Abort c]) (trace (stopStream t w))"
    and "queuedActions (stopStream t w) = queuedActions w"
  using assms trace_flush_prefix [of "(emit (Abort c) (w\<lparr>stopRequested := insert t (stopRequested w)\<rparr>))\<lparr>activeStreams := (activeStreams w)(t := None)\<rparr>" t]
  by (auto simp: stopStream_def Let_def updateTaskStatus_def emit_def prefix_def)

lemma trace_createMessage: "trace (snd (createMessage m w)) = trace w @ [DbCreate (m\<lparr>m_id := nextMessageId w\<rparr>)]"
  by (simp add: createMessage_def emit_def Let_def)

lemma nextController_createMessage: "nextController (snd (createMessage m w)) = nextController w"
  by (simp add: createMessage_def emit_def Let_def)

lemma trace_beginTurn_prefix: "prefix (trace w) (trace (beginTurn env a w))"
  by (auto simp: beginTurn_def addSystemMessage_def saveSystemMessage_def saveUserMessage_def
      createMessageWithAtomicSequence_def Let_def trace_createMessage prefix_def
      split: option.splits)

section \<open>The reducer on a given stream\<close>

lemma findMessage_updateRow:
  assumes "\<And>m. m_id (f m) = m_id m"
  shows "findMessage j (updateRow i f ms) =
           (if j = i then map_option f (findMessage i ms) else findMessage j ms)"
proof (induction ms)
  case Nil
  show ?case by (simp add: findMessage_def updateRow_def)
next
  case (Cons m ms)
  then show ?case using assms by (auto simp: findMessage_def updateRow_def)
qed

lemma m_id_applyPending [simp]: "m_id (applyPending u m) = m_id m"
  by (simp add: applyPending_def)

lemma hasRow_flush [simp]: "hasRow i (flushAssistantUpdate t w) = hasRow i w"
  by (auto simp: hasRow_def flushAssistantUpdate_def emit_def Let_def findMessage_updateRow split: option.splits)

lemma hasRow_clear [simp]: "hasRow i (clear env t w) = hasRow i w"
  by (simp add: clear_def) (simp add: hasRow_def)

lemma hasRow_scheduleUpdate [simp]: "hasRow i (scheduleUpdate t s w) = hasRow i w"
  by (simp add: hasRow_def scheduleUpdate_def scheduleAssistantUpdate_def split: option.splits)

lemma stopRequested_clear [simp]: "stopRequested (clear env t w) = stopRequested w"
  by (simp add: clear_def)

lemma stopRequested_scheduleUpdate [simp]: "stopRequested (scheduleUpdate t s w) = stopRequested w"
  by (simp add: scheduleUpdate_def scheduleAssistantUpdate_def split: option.splits)

lemma nextMessageId_flush [simp]: "nextMessageId (flushAssistantUpdate t w) = nextMessageId w"
  by (simp add: flushAssistantUpdate_def emit_def Let_def split: option.splits)

lemma funpow_flush:
  "stopRequested ((flushAssistantUpdate t ^^ n) w) = stopRequested w"
  "hasRow i ((flushAssistantUpdate t ^^ n) w) = hasRow i w"
  "nextMessageId ((flushAssistantUpdate t ^^ n) w) = nextMessageId w"
  by (induction n) simp_all

lemma streamLoop_timers:
  "streamLoop env t model (replicate n TimerFired @ rest) (s, w) =
     streamLoop env t model rest (s, (flushAssistantUpdate t ^^ n) w)"
  by (induction n arbitrary: w) (simp_all add: funpow_swap1)

lemma findMessage_append:
  "findMessage i (ms @ ms') = (case findMessage i ms of None \<Rightarrow> findMessage i ms' | Some m \<Rightarrow> Some m)"
  by (induction ms) (simp_all add: findMessage_def)

lemma streamLoop_timers_chunk:
  assumes "t \<notin> stopRequested w"
    and "processChunk env t model c (s, (flushAssistantUpdate t ^^ n) w) = (Continue, s', w')"
  shows "streamLoop env t model (replicate n TimerFired @ Chunk c # rest) (s, w) =
           streamLoop env t model rest (s', w')"
  using assms by (simp add: streamLoop_timers funpow_flush)

lemma createAssistantRow_result:
  "createAssistantRow t model c (s, w) = (s', w') \<Longrightarrow>
     s' = s\<lparr>assistantSequence := Some (getNextSequence t w), assistantMessageId := Some (nextMessageId w)\<rparr> \<and>
     hasRow (nextMessageId w) w' \<and> stopRequested w' = stopRequested w"
  by (auto simp: createAssistantRow_def saveAssistantMessage_def createMessage_def emit_def Let_def
      hasRow_def findMessage_append split: option.splits) (simp add: findMessage_def)

lemma updateMessage_found:
  assumes "hasRow i w" and "\<And>m. m_id (f m) = m_id m"
  shows "\<exists>m w'. updateMessage i f w = (None, w') \<and> findMessage i (chatMessages w) = Some m \<and>
           findMessage i (chatMessages w') = Some (f m) \<and> stopRequested w' = stopRequested w \<and>
           trace w' = trace w @ [DbUpdate (f m)]"
  using assms by (auto simp: updateMessage_def hasRow_def emit_def findMessage_updateRow)

lemma finalizeReasoning_fields [simp]:
  "assistantMessageId (finalizeReasoning s) = assistantMessageId s"
  "usageMetadata (finalizeReasoning s) = usageMetadata s"
  "finishReason (finalizeReasoning s) = finishReason s"
  "hasError (finalizeReasoning s) = hasError s"
  "assistantParts (finalizeReasoning s) =
     assistantParts s @ map reasoningPartOf (map snd (activeReasoningParts s))"
  by (simp_all add: finalizeReasoning_def)

lemma final_write:
  assumes "assistantMessageId s = Some i" and "usageMetadata s = Some u" and "hasRow i w"
  shows "\<exists>m w1. finishTurn env t (s, w) = (None, finalizeReasoning s, w1) \<and>
           findMessage i (chatMessages w1) = Some m \<and>
           m_content m = fullContent (assistantParts (finalizeReasoning s)) \<and>
           m_metadata m = Some \<lparr>md_isStreaming = False,
                                 md_parts = assistantParts (finalizeReasoning s),
                                 md_usage = Some u, md_finishReason = finishReason s\<rparr>"
proof -
  let ?f = "\<lambda>m. m\<lparr>m_content := fullContent (assistantParts (finalizeReasoning s)),
                 m_metadata := Some \<lparr>md_isStreaming = False,
                                 md_parts = assistantParts (finalizeReasoning s),
                                 md_usage = Some u, md_finishReason = finishReason (finalizeReasoning s)\<rparr>,
                 m_usage := Some u, m_finishReason := finishReason (finalizeReasoning s)\<rparr>"
  have "hasRow i (clear env t w)" using assms(3) by simp
  from updateMessage_found [OF this, of ?f]
  obtain m w' where upd: "updateMessage i ?f (clear env t w) = (None, w')"
    and found: "findMessage i (chatMessages w') = Some (?f m)"
    by auto
  have fin: "finalUpdate env t (finalizeReasoning s) w = (None, w')"
    using assms(1,2) upd by (simp add: finalUpdate_def Let_def)
  show ?thesis
    using fin found
    by (auto simp: finishTurn_def Let_def updateTaskStatus_def emit_def)
qed

lemma runStream_continue:
  "streamLoop env t model items sw = (Continue, s, w) \<Longrightarrow> finishTurn env t (s, w) = (None, s', w') \<Longrightarrow>
     runStream env t model items sw = (None, s', w')"
  by (simp add: runStream_def)

text \<open>
  C5. The stream delivers a content chunk \<open>a\<close>, a content chunk \<open>b\<close> and a usage
  chunk, with the batch timer firing any number of times before, between and after them,
  and no stop is requested. The turn ends without an exception; the parts in memory are
  the two text parts in order; the row of the assistant message holds the content
  \<open>a @ b\<close> and, in its metadata, exactly those two parts, the usage, and the streaming
  flag off.
\<close>

theorem two_contents_then_usage:
  assumes "t \<notin> stopRequested w" and "a \<noteq> []" and "b \<noteq> []"
  shows "\<exists>s' w' m.
           runStream env t model
             (replicate n0 TimerFired @ Chunk (Content (Some a)) #
              replicate n1 TimerFired @ Chunk (Content (Some b)) #
              replicate n2 TimerFired @ Chunk (Usage (Some u)) #
              replicate n3 TimerFired)
             (initialTurnState, w) = (None, s', w') \<and>
           assistantParts s' = [TextPart a, TextPart b] \<and>
           assistantMessageId s' = Some (nextMessageId w) \<and>
           findMessage (nextMessageId w) (chatMessages w') = Some m \<and>
           m_content m = a @ b \<and>
           m_metadata m = Some \<lparr>md_isStreaming = False, md_parts = [TextPart a, TextPart b],
                                 md_usage = Some u, md_finishReason = None\<rparr>"
proof -
  let ?i = "nextMessageId w"
  define W0 where "W0 = (flushAssistantUpdate t ^^ n0) w"
  obtain s1 W1 where row:
    "createAssistantRow t model a (pushPart (TextPart a) initialTurnState, W0) = (s1, W1)"
    by (metis prod.exhaust)
  from createAssistantRow_result [OF row]
  have s1: "s1 = (pushPart (TextPart a) initialTurnState)
                   \<lparr>assistantSequence := Some (getNextSequence t W0), assistantMessageId := Some ?i\<rparr>"
    and r1: "hasRow ?i W1" and st1: "t \<notin> stopRequested W1"
    using assms(1) by (simp_all add: W0_def funpow_flush)
  define s2 where "s2 = pushPart (TextPart b) s1"
  define W2 where "W2 = (flushAssistantUpdate t ^^ n2) (scheduleUpdate t s2 ((flushAssistantUpdate t ^^ n1) W1))"
  define s3 where "s3 = s2\<lparr>usageMetadata := Some u\<rparr>"
  define W3 where "W3 = (flushAssistantUpdate t ^^ n3) W2"
  have st0: "t \<notin> stopRequested W0" using assms(1) by (simp add: W0_def funpow_flush)
  have st1': "t \<notin> stopRequested ((flushAssistantUpdate t ^^ n1) W1)"
    using st1 by (simp add: funpow_flush)
  have st2: "t \<notin> stopRequested W2" using st1 by (simp add: W2_def funpow_flush)
  have seq1: "assistantSequence s1 \<noteq> None" by (simp add: s1)
  have step1: "processChunk env t model (Content (Some a)) (initialTurnState, (flushAssistantUpdate t ^^ n0) w) =
                 (Continue, s1, W1)"
    using assms(2) row by (simp add: W0_def pushPart_def initialTurnState_def Let_def)
  have step2: "processChunk env t model (Content (Some b)) (s1, (flushAssistantUpdate t ^^ n1) W1) =
                 (Continue, s2, scheduleUpdate t s2 ((flushAssistantUpdate t ^^ n1) W1))"
    using assms(3) seq1 by (auto simp: s2_def pushPart_def Let_def)
  have step3: "processChunk env t model (Usage (Some u)) (s2, (flushAssistantUpdate t ^^ n2)
                   (scheduleUpdate t s2 ((flushAssistantUpdate t ^^ n1) W1))) = (Continue, s3, W2)"
    by (simp add: s3_def W2_def)
  have st2': "t \<notin> stopRequested (scheduleUpdate t s2 ((flushAssistantUpdate t ^^ n1) W1))"
    using st1 by (simp add: funpow_flush)
  have "streamLoop env t model (replicate n3 TimerFired @ []) (s3, W2) = (Continue, s3, W3)"
    by (simp only: streamLoop_timers W3_def [symmetric] streamLoop.simps)
  then have last_step: "streamLoop env t model (replicate n3 TimerFired) (s3, W2) = (Continue, s3, W3)"
    by simp
  have loop: "streamLoop env t model
             (replicate n0 TimerFired @ Chunk (Content (Some a)) #
              replicate n1 TimerFired @ Chunk (Content (Some b)) #
              replicate n2 TimerFired @ Chunk (Usage (Some u)) #
              replicate n3 TimerFired)
             (initialTurnState, w) = (Continue, s3, W3)"
    by (simp only: streamLoop_timers_chunk [OF assms(1) step1]
        streamLoop_timers_chunk [OF st1 step2] streamLoop_timers_chunk [OF st2' step3] last_step)
  have parts3: "assistantParts s3 = [TextPart a, TextPart b]"
    and id3: "assistantMessageId s3 = Some ?i" and us3: "usageMetadata s3 = Some u"
    and ar3: "activeReasoningParts s3 = []" and fr3: "finishReason s3 = None"
    by (simp_all add: s3_def s2_def s1 pushPart_def initialTurnState_def)
  have r3: "hasRow ?i W3" using r1 by (simp add: W3_def W2_def funpow_flush)
  from final_write [OF id3 us3 r3, of env t]
  obtain m w1 where fin: "finishTurn env t (s3, W3) = (None, finalizeReasoning s3, w1)"
    and found: "findMessage ?i (chatMessages w1) = Some m"
    and content: "m_content m = fullContent (assistantParts (finalizeReasoning s3))"
    and md: "m_metadata m = Some \<lparr>md_isStreaming = False,
                                 md_parts = assistantParts (finalizeReasoning s3),
                                 md_usage = Some u, md_finishReason = finishReason s3\<rparr>"
    by blast
  have final_parts: "assistantParts (finalizeReasoning s3) = [TextPart a, TextPart b]"
    by (simp add: parts3 ar3)
  have content': "m_content m = a @ b"
    unfolding content final_parts by (simp add: fullContent_def)
  have md': "m_metadata m = Some \<lparr>md_isStreaming = False, md_parts = [TextPart a, TextPart b],
                                 md_usage = Some u, md_finishReason = None\<rparr>"
    unfolding md final_parts fr3 ..
  from runStream_continue [OF loop fin] found content' md' final_parts id3
  show ?thesis by simp
qed

theorem two_contents_then_usage_witness:
  "\<exists>s' w' m.
     runStream exampleEnv ''T'' ''m''
       [Chunk (Content (Some ''a'')), TimerFired, Chunk (Content (Some ''b'')),
        Chunk (Usage (Some exampleUsage))]
       (initialTurnState, emptyWorld) = (None, s', w') \<and>
     assistantParts s' = [TextPart ''a'', TextPart ''b''] \<and>
     findMessage 0 (chatMessages w') = Some m \<and>
     m_content m = ''ab'' \<and>
     m_metadata m = Some \<lparr>md_isStreaming = False, md_parts = [TextPart ''a'', TextPart ''b''],
                           md_usage = Some exampleUsage, md_finishReason = None\<rparr>"
proof -
  have free: "''T'' \<notin> stopRequested emptyWorld" and zero: "nextMessageId emptyWorld = 0"
    by (simp_all add: emptyWorld_def)
  have a: "''a'' \<noteq> []" and b: "''b'' \<noteq> []" by simp_all
  from two_contents_then_usage [OF free a b,
      where env = exampleEnv and model = "''m''" and u = exampleUsage
        and ?n0.0 = 0 and ?n1.0 = 1 and ?n2.0 = 0 and ?n3.0 = 0]
  show ?thesis unfolding zero by simp blast
qed

section \<open>An error chunk\<close>

lemma trace_flush:
  "\<exists>bw. trace (flushAssistantUpdate t w) = trace w @ bw \<and> (\<forall>e \<in> set bw. isBatchWrite e)"
  by (simp add: flushAssistantUpdate_def emit_def Let_def split: option.splits)

lemma trace_clear:
  "\<exists>bw. trace (clear env t w) = trace w @ bw \<and> (\<forall>e \<in> set bw. isBatchWrite e)"
  using trace_flush [of t w] by (simp add: clear_def)

lemma pendingUpdates_flush [simp]: "pendingUpdates (flushAssistantUpdate t w) t = None"
  by (simp add: flushAssistantUpdate_def emit_def Let_def split: option.splits)

lemma pendingUpdates_clear [simp]: "pendingUpdates (clear env t w) t = None"
  by (simp add: clear_def)

lemma flush_nothing: "pendingUpdates w t = None \<Longrightarrow> flushAssistantUpdate t w = w"
  by (simp add: flushAssistantUpdate_def)

lemma clear_nothing: "pendingUpdates w t = None \<Longrightarrow> clear env t w = w"
proof -
  assume none: "pendingUpdates w t = None"
  then have "(pendingUpdates w)(t := None) = pendingUpdates w" by (simp add: fun_upd_idem)
  with none show ?thesis by (simp add: clear_def flush_nothing)
qed

lemma batch_not_update: "\<forall>e \<in> set bw. isBatchWrite e \<Longrightarrow> filter isDbUpdate bw = []"
proof (induction bw)
  case Nil
  show ?case by simp
next
  case (Cons e bw)
  then show ?case by (cases e) simp_all
qed

lemma batch_status: "\<forall>e \<in> set bw. isBatchWrite e \<Longrightarrow> fold (statusAfter t) bw cur = cur"
proof (induction bw arbitrary: cur)
  case Nil
  show ?case by simp
next
  case (Cons e bw)
  then show ?case by (cases e) simp_all
qed

lemma afterError_fields [simp]:
  "assistantMessageId (afterError e fr s) = assistantMessageId s"
  "usageMetadata (afterError e fr s) = usageMetadata s"
  "hasError (afterError e fr s)"
  "assistantParts (afterError e fr s) = assistantParts s @ [ErrorPart (userFriendlyError e) fr]"
  "finishReason (afterError e fr s) = Some (or_default fr ''error'')"
  by (simp_all add: afterError_def pushPart_def)

lemma handleErrorChunk_no_row:
  assumes "assistantMessageId s = None"
  shows "handleErrorChunk env t e fr (s, w) =
           (Break, afterError e fr s,
            w\<lparr>trace := trace w @ [StatusUpdate t FAILED],
              activeStreams := (activeStreams w)(t := None),
              stopRequested := stopRequested w - {t},
              queuedActions := (queuedActions w)(t := None)\<rparr>)"
  using assms
  by (simp add: handleErrorChunk_def Let_def afterError_def pushPart_def updateTaskStatus_def
      emit_def clearQueuedAction_def)

lemma handleErrorChunk_row:
  assumes "assistantMessageId s = Some i" and "hasRow i w"
  shows "\<exists>bw row w'.
           handleErrorChunk env t e fr (s, w) = (Break, afterError e fr s, w') \<and>
           trace w' = trace w @ bw @ [DbUpdate row, StatusUpdate t FAILED] \<and>
           (\<forall>x \<in> set bw. isBatchWrite x) \<and>
           m_id row = i \<and>
           m_content row = fullContent (assistantParts (afterError e fr s)) \<and>
           m_metadata row = Some \<lparr>md_isStreaming = False,
                                   md_parts = assistantParts (afterError e fr s),
                                   md_usage = None,
                                   md_finishReason = Some (or_default fr ''error'')\<rparr> \<and>
           pendingUpdates w' t = None \<and> queuedActions w' t = None \<and>
           activeStreams w' t = None \<and> t \<notin> stopRequested w' \<and> hasRow i w'"
proof -
  let ?s2 = "afterError e fr s"
  let ?f = "\<lambda>m. m\<lparr>m_content := fullContent (assistantParts ?s2),
                 m_metadata := Some \<lparr>md_isStreaming = False, md_parts = assistantParts ?s2,
                                       md_usage = None, md_finishReason = finishReason ?s2\<rparr>\<rparr>"
  obtain bw where bw: "trace (clear env t w) = trace w @ bw" "\<forall>x \<in> set bw. isBatchWrite x"
    using trace_clear by blast
  have "hasRow i (clear env t w)" using assms(2) by simp
  from updateMessage_found [OF this, of ?f]
  obtain m w1 where upd: "updateMessage i ?f (clear env t w) = (None, w1)"
    and before: "findMessage i (chatMessages (clear env t w)) = Some m"
    and found: "findMessage i (chatMessages w1) = Some (?f m)"
    and tr: "trace w1 = trace (clear env t w) @ [DbUpdate (?f m)]"
    by auto
  have mid: "m_id m = i"
    using before by (auto simp: findMessage_def dest: find_Some_iff [THEN iffD1])
  have pend: "pendingUpdates w1 t = None"
    using upd by (auto simp: updateMessage_def emit_def split: option.splits)
  have row1: "hasRow i w1" using found by (simp add: hasRow_def)
  let ?w' = "clearQueuedAction t
               ((updateTaskStatus t FAILED w1)
                  \<lparr>activeStreams := (activeStreams (updateTaskStatus t FAILED w1))(t := None),
                   stopRequested := stopRequested (updateTaskStatus t FAILED w1) - {t}\<rparr>)"
  have res: "handleErrorChunk env t e fr (s, w) = (Break, ?s2, ?w')"
    using assms(1) upd
    by (simp add: handleErrorChunk_def Let_def afterError_def pushPart_def)
  show ?thesis
    apply (rule exI [of _ bw], rule exI [of _ "?f m"], rule exI [of _ ?w'])
    using res bw tr mid pend row1
    by (simp add: clearQueuedAction_def updateTaskStatus_def emit_def hasRow_def)
qed

lemma finishTurn_after_error:
  assumes "hasError s" and "pendingUpdates w t = None"
    and "usageMetadata s = None \<or> assistantMessageId s = None"
  shows "finishTurn env t (s, w) =
           (None, finalizeReasoning s,
            w\<lparr>activeStreams := (activeStreams w)(t := None),
              stopRequested := stopRequested w - {t}\<rparr>)"
  using assms
  by (auto simp: finishTurn_def finalUpdate_def Let_def clear_nothing flush_nothing
      split: option.splits)

lemma taskStatus_append:
  "trace w' = trace w @ xs \<Longrightarrow> taskStatus t w' = fold (statusAfter t) xs (taskStatus t w)"
  by (simp add: taskStatus_def)

text \<open>
  The rest of a turn after an error chunk that found the row of the assistant message:
  the handler writes the row, sets the status, and the loop is left; the finalisation
  writes the row once more exactly when a usage chunk had been recorded.
\<close>

lemma error_with_row:
  assumes "t \<notin> stopRequested w" and "assistantMessageId s = Some i" and "hasRow i w"
  shows "\<exists>s' w' bw row more.
           (\<forall>post. runStream env t model (Chunk (ErrorChunk e fr) # post) (s, w) = (None, s', w')) \<and>
           trace w' = trace w @ bw @ [DbUpdate row, StatusUpdate t FAILED] @ more \<and>
           (\<forall>x \<in> set bw. isBatchWrite x) \<and>
           m_id row = i \<and>
           m_metadata row = Some \<lparr>md_isStreaming = False,
                                   md_parts = assistantParts s @ [ErrorPart (userFriendlyError e) fr],
                                   md_usage = None,
                                   md_finishReason = Some (or_default fr ''error'')\<rparr> \<and>
           (usageMetadata s = None \<longrightarrow> more = []) \<and>
           (\<forall>u. usageMetadata s = Some u \<longrightarrow>
              (\<exists>row'. more = [DbUpdate row'] \<and> m_id row' = i \<and> m_usage row' = Some u)) \<and>
           queuedActions w' t = None"
proof -
  from handleErrorChunk_row [OF assms(2,3), of env t e fr]
  obtain bw row w1 where h: "handleErrorChunk env t e fr (s, w) = (Break, afterError e fr s, w1)"
    and tr: "trace w1 = trace w @ bw @ [DbUpdate row, StatusUpdate t FAILED]"
    and bw: "\<forall>x \<in> set bw. isBatchWrite x"
    and rid: "m_id row = i"
    and md: "m_metadata row = Some \<lparr>md_isStreaming = False,
                                   md_parts = assistantParts (afterError e fr s),
                                   md_usage = None,
                                   md_finishReason = Some (or_default fr ''error'')\<rparr>"
    and pend: "pendingUpdates w1 t = None" and q1: "queuedActions w1 t = None"
    and row1: "hasRow i w1"
    by blast
  let ?s1 = "finalizeReasoning (afterError e fr s)"
  show ?thesis
  proof (cases "usageMetadata s")
    case None
    let ?w' = "w1\<lparr>activeStreams := (activeStreams w1)(t := None),
                stopRequested := stopRequested w1 - {t}\<rparr>"
    have fin: "finishTurn env t (afterError e fr s, w1) = (None, ?s1, ?w')"
      using None pend by (intro finishTurn_after_error) simp_all
    have run: "\<forall>post. runStream env t model (Chunk (ErrorChunk e fr) # post) (s, w) =
                 (None, ?s1, ?w')"
      using assms(1) h fin by (simp add: runStream_def)
    show ?thesis
      apply (rule exI [of _ ?s1], rule exI [of _ ?w'], rule exI [of _ bw],
          rule exI [of _ row], rule exI [of _ "[]"])
      using run tr bw rid md None q1 by simp
  next
    case (Some u)
    let ?f = "\<lambda>m. m\<lparr>m_content := fullContent (assistantParts ?s1),
                   m_metadata := Some \<lparr>md_isStreaming = False, md_parts = assistantParts ?s1,
                                         md_usage = Some u, md_finishReason = finishReason ?s1\<rparr>,
                   m_usage := Some u, m_finishReason := finishReason ?s1\<rparr>"
    from updateMessage_found [OF row1, of ?f]
    obtain m w2 where upd: "updateMessage i ?f w1 = (None, w2)"
      and before: "findMessage i (chatMessages w1) = Some m"
      and tr2: "trace w2 = trace w1 @ [DbUpdate (?f m)]"
      by auto
    have mid: "m_id m = i"
      using before by (auto simp: findMessage_def dest: find_Some_iff [THEN iffD1])
    have "queuedActions (snd (updateMessage i ?f w1)) t = None" using q1 by simp
    then have q2: "queuedActions w2 t = None" unfolding upd by simp
    let ?w' = "w2\<lparr>activeStreams := (activeStreams w2)(t := None),
                stopRequested := stopRequested w2 - {t}\<rparr>"
    have fin: "finishTurn env t (afterError e fr s, w1) = (None, ?s1, ?w')"
      using assms(2) Some upd pend
      by (simp add: finishTurn_def finalUpdate_def Let_def clear_nothing)
    have run: "\<forall>post. runStream env t model (Chunk (ErrorChunk e fr) # post) (s, w) =
                 (None, ?s1, ?w')"
      using assms(1) h fin by (simp add: runStream_def)
    show ?thesis
      apply (rule exI [of _ ?s1], rule exI [of _ ?w'], rule exI [of _ bw],
          rule exI [of _ row], rule exI [of _ "[DbUpdate (?f m)]"])
      using run tr tr2 bw rid md Some q2 mid by simp
  qed
qed

text \<open>
  C3, as amended. An error chunk reaches the reducer (no stop is requested when it
  arrives). Then, whatever was recorded before it, the turn ends without an exception and
  consumes nothing after the error chunk, the status of the task is FAILED at the end,
  the slot of queued actions is empty, and \<open>processQueuedActions\<close>, called at the end of
  the turn, does nothing. The writes the chat service issues itself in the rest of the
  turn are: none when no assistant row exists yet; with a row, first the write of the
  handler (the row with the streaming flag off, the parts including the error part, and
  the finish reason), which is the only one when no usage chunk was recorded before the
  error, and is followed by one write of the final update, carrying the usage, when one
  was.
\<close>

theorem error_chunk_outcome:
  assumes "t \<notin> stopRequested w"
    and "\<forall>i. assistantMessageId s = Some i \<longrightarrow> hasRow i w"
  shows "\<exists>s' w'.
           runStream env t model (Chunk (ErrorChunk e fr) # post) (s, w) = (None, s', w') \<and>
           runStream env t model [Chunk (ErrorChunk e fr)] (s, w) = (None, s', w') \<and>
           (assistantMessageId s = None \<longrightarrow>
              filter isDbUpdate (drop (length (trace w)) (trace w')) = []) \<and>
           (\<forall>i. assistantMessageId s = Some i \<longrightarrow>
              (\<exists>row more.
                 filter isDbUpdate (drop (length (trace w)) (trace w')) = DbUpdate row # more \<and>
                 m_id row = i \<and>
                 m_metadata row =
                   Some \<lparr>md_isStreaming = False,
                         md_parts = assistantParts s @ [ErrorPart (userFriendlyError e) fr],
                         md_usage = None,
                         md_finishReason = Some (or_default fr ''error'')\<rparr> \<and>
                 (usageMetadata s = None \<longrightarrow> more = []) \<and>
                 (\<forall>u. usageMetadata s = Some u \<longrightarrow>
                    (\<exists>row'. more = [DbUpdate row'] \<and> m_id row' = i \<and> m_usage row' = Some u)))) \<and>
           taskStatus t w' = Some FAILED \<and>
           queuedActions w' t = None \<and>
           (\<forall>rest. processQueuedActions env rest t w' = Some w')"
proof (cases "assistantMessageId s")
  case None
  let ?w1 = "w\<lparr>trace := trace w @ [StatusUpdate t FAILED],
              activeStreams := (activeStreams w)(t := None),
              stopRequested := stopRequested w - {t},
              queuedActions := (queuedActions w)(t := None)\<rparr>"
  let ?w' = "?w1\<lparr>activeStreams := (activeStreams ?w1)(t := None),
              stopRequested := stopRequested ?w1 - {t}\<rparr>"
  have fin: "finishTurn env t (afterError e fr s, ?w1) = (None, finalizeReasoning (afterError e fr s), ?w')"
    using None by (simp add: finishTurn_def finalUpdate_def Let_def)
  have run: "\<And>post. runStream env t model (Chunk (ErrorChunk e fr) # post) (s, w) =
               (None, finalizeReasoning (afterError e fr s), ?w')"
    using assms(1) handleErrorChunk_no_row [OF None, of env t e fr w] fin
    by (simp add: runStream_def)
  have q: "queuedActions ?w' t = None" by simp
  have st: "taskStatus t ?w' = Some FAILED"
    by (simp add: taskStatus_def)
  show ?thesis
    apply (rule exI [of _ "finalizeReasoning (afterError e fr s)"], rule exI [of _ ?w'])
    using run [of post] run [of "[]"] None st q processQueuedActions_empty [OF q]
    by simp
next
  case (Some i)
  with assms(2) have row: "hasRow i w" by simp
  from error_with_row [OF assms(1) Some row, of env model e fr]
  obtain s' w' bw row more
    where run: "\<forall>post. runStream env t model (Chunk (ErrorChunk e fr) # post) (s, w) = (None, s', w')"
    and tr: "trace w' = trace w @ bw @ [DbUpdate row, StatusUpdate t FAILED] @ more"
    and bw: "\<forall>x \<in> set bw. isBatchWrite x"
    and rid: "m_id row = i"
    and md: "m_metadata row = Some \<lparr>md_isStreaming = False,
                                   md_parts = assistantParts s @ [ErrorPart (userFriendlyError e) fr],
                                   md_usage = None,
                                   md_finishReason = Some (or_default fr ''error'')\<rparr>"
    and none: "usageMetadata s = None \<longrightarrow> more = []"
    and some: "\<forall>u. usageMetadata s = Some u \<longrightarrow>
                 (\<exists>row'. more = [DbUpdate row'] \<and> m_id row' = i \<and> m_usage row' = Some u)"
    and q: "queuedActions w' t = None"
    by (elim exE conjE) (rule that)
  have upd: "filter isDbUpdate more = more \<and> fold (statusAfter t) more (Some FAILED) = Some FAILED"
    using none some by (cases "usageMetadata s") auto
  have tr': "trace w' = trace w @ (bw @ [DbUpdate row, StatusUpdate t FAILED] @ more)"
    using tr by simp
  have st: "taskStatus t w' = Some FAILED"
    unfolding taskStatus_append [OF tr'] using batch_status [OF bw] upd by simp
  have writes: "filter isDbUpdate (drop (length (trace w)) (trace w')) = DbUpdate row # more"
    using batch_not_update [OF bw] upd by (simp add: tr)
  show ?thesis
    apply (rule exI [of _ s'], rule exI [of _ w'])
    using run Some st q processQueuedActions_empty [OF q] writes rid md none some
    by simp
qed

text \<open>
  C3 as stated fails when the error chunk is the first chunk of the stream: no row has
  been created, the guard on the message identifier skips the write, and the only call
  issued is the status update.
\<close>

theorem error_before_first_chunk_writes_nothing:
  "trace (snd (snd (runStream exampleEnv ''T'' ''m'' [Chunk (ErrorChunk (Some ''boom'') None)]
      (initialTurnState, exampleErrorWorld)))) = [StatusUpdate ''T'' FAILED] \<and>
   length (filter isDbUpdate (trace (snd (snd (runStream exampleEnv ''T'' ''m''
      [Chunk (ErrorChunk (Some ''boom'') None)] (initialTurnState, exampleErrorWorld)))))) \<noteq> 1"
proof -
  have none: "assistantMessageId initialTurnState = None" by (simp add: initialTurnState_def)
  have free: "''T'' \<notin> stopRequested exampleErrorWorld"
    by (simp add: exampleErrorWorld_def emptyWorld_def)
  have fin: "finishTurn exampleEnv ''T'' (afterError (Some ''boom'') None initialTurnState,
               exampleErrorWorld\<lparr>trace := trace exampleErrorWorld @ [StatusUpdate ''T'' FAILED],
                 activeStreams := (activeStreams exampleErrorWorld)(''T'' := None),
                 stopRequested := stopRequested exampleErrorWorld - {''T''},
                 queuedActions := (queuedActions exampleErrorWorld)(''T'' := None)\<rparr>) =
             (None, finalizeReasoning (afterError (Some ''boom'') None initialTurnState),
               exampleErrorWorld\<lparr>trace := trace exampleErrorWorld @ [StatusUpdate ''T'' FAILED],
                 activeStreams := (activeStreams exampleErrorWorld)(''T'' := None),
                 stopRequested := stopRequested exampleErrorWorld - {''T''},
                 queuedActions := (queuedActions exampleErrorWorld)(''T'' := None)\<rparr>)"
    by (simp add: finishTurn_def finalUpdate_def Let_def none)
  have "trace (snd (snd (runStream exampleEnv ''T'' ''m'' [Chunk (ErrorChunk (Some ''boom'') None)]
      (initialTurnState, exampleErrorWorld)))) = trace exampleErrorWorld @ [StatusUpdate ''T'' FAILED]"
    using free handleErrorChunk_no_row [OF none, of exampleEnv "''T''" "Some ''boom''" None exampleErrorWorld] fin
    by (simp add: runStream_def)
  then show ?thesis by (simp add: exampleErrorWorld_def emptyWorld_def)
qed

lemma exampleStreaming_facts:
  "assistantMessageId exampleStreamingState = Some 0"
  "usageMetadata exampleStreamingState = None"
  "assistantParts exampleStreamingState = [TextPart ''a'']"
  "hasRow 0 exampleStreamingWorld"
  "''T'' \<notin> stopRequested exampleStreamingWorld"
  "queuedActions exampleStreamingWorld ''T'' = Some (QueuedMessage ''later'' ''m'' None)"
  by (simp_all add: exampleStreamingState_def exampleStreamingWorld_def Let_def pushPart_def
      initialTurnState_def createAssistantRow_def saveAssistantMessage_def createMessage_def
      newMessage_def emit_def exampleErrorWorld_def emptyWorld_def hasRow_def findMessage_def)

theorem error_chunk_outcome_witness:
  "\<exists>s' w' row row'.
     runStream exampleEnv ''T'' ''m'' [Chunk (ErrorChunk (Some ''rate limit exceeded'') None), Chunk (Content (Some ''b''))]
       (exampleStreamingState\<lparr>usageMetadata := Some exampleUsage\<rparr>, exampleStreamingWorld) = (None, s', w') \<and>
     filter isDbUpdate (drop (length (trace exampleStreamingWorld)) (trace w')) =
       [DbUpdate row, DbUpdate row'] \<and>
     m_id row = 0 \<and> m_id row' = 0 \<and>
     taskStatus ''T'' w' = Some FAILED \<and>
     queuedActions w' ''T'' = None \<and>
     processQueuedActions exampleEnv [] ''T'' w' = Some w'"
proof -
  have rows: "\<forall>i. assistantMessageId (exampleStreamingState\<lparr>usageMetadata := Some exampleUsage\<rparr>) = Some i
                \<longrightarrow> hasRow i exampleStreamingWorld"
    by (simp add: exampleStreaming_facts)
  from error_chunk_outcome [OF exampleStreaming_facts(5) rows,
      of exampleEnv "''m''" "Some ''rate limit exceeded''" None "[Chunk (Content (Some ''b''))]"]
  show ?thesis
    by (simp add: exampleStreaming_facts) blast
qed

lemma hasRow_updateTaskStatus [simp]: "hasRow i (updateTaskStatus t st w) = hasRow i w"
  by (simp add: hasRow_def updateTaskStatus_def emit_def)

lemma hasRow_stopStream [simp]: "hasRow i (stopStream t w) = hasRow i w"
  by (simp add: stopStream_def Let_def split: option.splits) (simp add: hasRow_def emit_def)

lemma stopRequested_stopStream: "t \<in> stopRequested (stopStream t w)"
  by (simp add: stopStream_def Let_def updateTaskStatus_def emit_def split: option.splits)

lemma stopped_loop:
  assumes "t \<in> stopRequested w"
    and "(\<forall>x. StreamThrows x \<notin> set items) \<and> OtherTurnEnds \<notin> set items"
  shows "\<exists>k w'. streamLoop env t model items (s, w) = (k, s, w') \<and>
           (k = Continue \<or> k = Break) \<and> t \<in> stopRequested w' \<and> (\<forall>i. hasRow i w' = hasRow i w)"
  using assms
proof (induction items arbitrary: w)
  case Nil
  then show ?case by simp
next
  case (Cons it items)
  show ?case
  proof (cases it)
    case (Chunk c)
    with Cons.prems show ?thesis by simp
  next
    case TimerFired
    have "t \<in> stopRequested (flushAssistantUpdate t w)" using Cons.prems(1) by simp
    from Cons.IH [OF this] Cons.prems(2) TimerFired show ?thesis by simp
  next
    case StopCalled
    from Cons.IH [OF stopRequested_stopStream [of t w]] Cons.prems(2) StopCalled
    show ?thesis by simp
  next
    case OtherTurnEnds
    with Cons.prems(2) show ?thesis by simp
  next
    case (StreamThrows m)
    with Cons.prems(2) show ?thesis by auto
  qed
qed

lemma finishTurn_stopped:
  assumes "t \<in> stopRequested w" and "\<not> hasError s"
    and "\<forall>i. assistantMessageId s = Some i \<longrightarrow> hasRow i w"
  shows "\<exists>w'. finishTurn env t (s, w) = (None, finalizeReasoning s, w') \<and>
           taskStatus t w' = Some STOPPED"
proof -
  have "\<exists>w1. finalUpdate env t (finalizeReasoning s) w = (None, w1) \<and> stopRequested w1 = stopRequested w"
  proof (cases "assistantMessageId s")
    case None
    then show ?thesis by (simp add: finalUpdate_def)
  next
    case (Some i)
    with assms(3) have row: "hasRow i (clear env t w)" by simp
    show ?thesis
    proof (cases "usageMetadata s")
      case None
      with Some show ?thesis by (simp add: finalUpdate_def Let_def)
    next
      case (Some u)
      let ?f = "\<lambda>m. m\<lparr>m_content := fullContent (assistantParts (finalizeReasoning s)),
                 m_metadata := Some \<lparr>md_isStreaming = False,
                                 md_parts = assistantParts (finalizeReasoning s),
                                 md_usage = Some u, md_finishReason = finishReason (finalizeReasoning s)\<rparr>,
                 m_usage := Some u, m_finishReason := finishReason (finalizeReasoning s)\<rparr>"
      from updateMessage_found [OF row, of ?f]
      obtain w1 where "updateMessage i ?f (clear env t w) = (None, w1)"
        and "stopRequested w1 = stopRequested (clear env t w)"
        by auto
      with Some \<open>assistantMessageId s = Some i\<close> show ?thesis
        by (simp add: finalUpdate_def Let_def)
    qed
  qed
  then obtain w1 where fu: "finalUpdate env t (finalizeReasoning s) w = (None, w1)" by blast
  with assms(1,2) show ?thesis
    by (simp add: finishTurn_def Let_def updateTaskStatus_def emit_def taskStatus_def)
qed

text \<open>
  A turn that finds the stop flag of its task set (the turn an immediate message or a stop
  request has cancelled) processes no further chunk and is classified as stopped, unless
  the stream raises or another invocation on the task reaches its teardown, and clears
  the flag, before the turn looks at it.
\<close>

lemma stopped_turn_status:
  assumes "t \<in> stopRequested w" and "\<not> hasError s"
    and "\<forall>i. assistantMessageId s = Some i \<longrightarrow> hasRow i w"
    and "(\<forall>x. StreamThrows x \<notin> set items) \<and> OtherTurnEnds \<notin> set items"
  shows "\<exists>w'. runStream env t model items (s, w) = (None, finalizeReasoning s, w') \<and>
           taskStatus t w' = Some STOPPED"
proof -
  from stopped_loop [OF assms(1,4), of env model s]
  obtain k w1 where loop: "streamLoop env t model items (s, w) = (k, s, w1)"
    and k: "k = Continue \<or> k = Break" and st: "t \<in> stopRequested w1"
    and rows: "\<forall>i. hasRow i w1 = hasRow i w"
    by blast
  from assms(3) rows have "\<forall>i. assistantMessageId s = Some i \<longrightarrow> hasRow i w1" by simp
  from finishTurn_stopped [OF st assms(2) this, of env]
  obtain w' where "finishTurn env t (s, w1) = (None, finalizeReasoning s, w')"
    and "taskStatus t w' = Some STOPPED"
    by blast
  with loop k show ?thesis by (auto simp: runStream_def)
qed

section \<open>An immediate message while a stream is active\<close>

lemma stopRequested_createMessage [simp]: "stopRequested (snd (createMessage m w)) = stopRequested w"
  by (simp add: createMessage_def emit_def Let_def)

lemma stopRequested_beginTurn [simp]: "stopRequested (beginTurn env a w) = stopRequested w"
  by (simp add: beginTurn_def addSystemMessage_def saveSystemMessage_def saveUserMessage_def
      createMessageWithAtomicSequence_def Let_def split: option.splits)

lemma finalizeReasoning_initial: "finalizeReasoning initialTurnState = initialTurnState"
  by (simp add: finalizeReasoning_def initialTurnState_def)

lemma runStream_unregisters:
  assumes "runStream env t model items (s, w) = (None, s', w')"
  shows "t \<notin> stopRequested w' \<and> activeStreams w' t = None"
proof -
  obtain k s1 w1 where loop: "streamLoop env t model items (s, w) = (k, s1, w1)"
    by (metis prod_cases3)
  obtain r2 s2 w2 where fin: "finishTurn env t (s1, w1) = (r2, s2, w2)"
    by (metis prod_cases3)
  from assms loop fin have "r2 = None \<and> w' = w2"
    by (cases k; cases r2) (simp_all add: runStream_def)
  with fin show ?thesis
    by (auto simp: finishTurn_def Let_def split: prod.splits option.splits if_splits)
qed

text \<open>
  Seen from the cancelled turn alone: a stop request and then the teardown of the other
  invocation arrive between its first and its second chunk. The turn consumes the second
  chunk and ends as completed.
\<close>

lemma cancelled_turn_can_complete:
  "assistantParts (fst (snd (runStream exampleEnv ''T'' ''m''
       [Chunk (Content (Some ''a'')), StopCalled, OtherTurnEnds, Chunk (Content (Some ''c''))]
       (initialTurnState, exampleErrorWorld)))) = [TextPart ''a'', TextPart ''c''] \<and>
   taskStatus ''T'' (snd (snd (runStream exampleEnv ''T'' ''m''
       [Chunk (Content (Some ''a'')), StopCalled, OtherTurnEnds, Chunk (Content (Some ''c''))]
       (initialTurnState, exampleErrorWorld)))) = Some COMPLETED"
  by (simp add: exampleErrorWorld_def unregister_def
      runStream_def Let_def pushPart_def stopStream_def
      initialTurnState_def createAssistantRow_def saveAssistantMessage_def createMessage_def
      newMessage_def emit_def emptyWorld_def exampleEnv_def scheduleUpdate_def scheduleAssistantUpdate_def
      flushAssistantUpdate_def findMessage_def updateRow_def applyPending_def finishTurn_def finalUpdate_def
      finalizeReasoning_def clear_def updateTaskStatus_def getNextSequence_def lastSequence_def nextSequenceOf_def
      taskStatus_def)

text \<open>
  The same with the other invocation run in full: the first turn of the example receives
  its next chunk after the turn of the immediate message has ended; it consumes the chunk
  and ends as completed.
\<close>

lemma example_resumed_turn:
  "assistantParts (fst (snd (runStream exampleEnv ''T'' ''m'' [Chunk (Content (Some ''c''))]
       (exampleStreamingState, exampleAfterSubmit)))) = [TextPart ''a'', TextPart ''c''] \<and>
   taskStatus ''T'' (snd (snd (runStream exampleEnv ''T'' ''m'' [Chunk (Content (Some ''c''))]
       (exampleStreamingState, exampleAfterSubmit)))) = Some COMPLETED \<and>
   taskStatus ''T'' exampleAfterSubmit = Some STOPPED \<and>
   map m_content (chatMessages exampleAfterSubmit) = [''a'', ''next'']"
  by (simp add: exampleAfterSubmit_def exampleStreamingState_def exampleStreamingWorld_def
      exampleErrorWorld_def exampleArgs_def
      runStream_def Let_def pushPart_def stopStream_def clearQueuedAction_def beginTurn_def
      saveUserMessage_def createMessageWithAtomicSequence_def getChatHistory_def
      initialTurnState_def createAssistantRow_def saveAssistantMessage_def createMessage_def
      newMessage_def emit_def emptyWorld_def exampleEnv_def scheduleUpdate_def scheduleAssistantUpdate_def
      flushAssistantUpdate_def findMessage_def updateRow_def applyPending_def finishTurn_def finalUpdate_def
      finalizeReasoning_def clear_def updateTaskStatus_def getNextSequence_def lastSequence_def nextSequenceOf_def
      taskStatus_def)


text \<open>
  C4. The claim is that an immediate message cancels the prior stream, which then ends as
  stopped, and that the new message is processed as a fresh turn. A task has an active
  stream under controller \<open>c\<close>. For an immediate message the gate aborts that
  controller, sets the stop flag of the task, unregisters the stream and empties the slot
  of queued actions. The stop flag is shared by all invocations on the task and nothing
  clears it before the new turn starts: unless the prior invocation reaches its teardown
  while the new turn runs, or the stream raises, the new turn leaves its loop at the first
  chunk, ends with the initial local state (no part, no row), is itself classified as
  stopped and clears the flag, so that the prior turn, when it resumes after that, is no
  longer stopped. A message submitted with \<open>queue\<close> returns at once, whatever streams
  are available, and changes one thing in the registries: the slot of the task now holds
  the new message, whatever it held before; the stream stays registered, no stop is
  requested, nothing is aborted, no row and no pending write is touched.
\<close>

theorem immediate_submit_stops_new_turn:
  assumes "activeStreams w (taskId a) = Some c"
  shows "(\<not> queue a \<longrightarrow>
           (\<exists>w1. gate a (handleFollowUpLogic (taskId a) w) = Proceed w1 \<and>
              activeStreams w1 (taskId a) = None \<and>
              taskId a \<in> stopRequested w1 \<and>
              Abort c \<in> set (trace w1) \<and>
              queuedActions w1 (taskId a) = None \<and>
              (\<forall>items rest.
                 (\<forall>x. StreamThrows x \<notin> set items) \<and> OtherTurnEnds \<notin> set items \<longrightarrow>
                 (\<exists>w2. runStream env (taskId a) (mainModel a) items
                          (initialTurnState, beginTurn env a w1) = (None, initialTurnState, w2) \<and>
                    processUserMessageInternal env (items # rest) a w = Some (None, w2) \<and>
                    taskStatus (taskId a) w2 = Some STOPPED \<and>
                    taskId a \<notin> stopRequested w2 \<and>
                    activeStreams w2 (taskId a) = None)))) \<and>
         (queue a \<longrightarrow>
           (\<forall>streams.
              processUserMessageInternal env streams a w =
                Some (None, (handleFollowUpLogic (taskId a) w)
                        \<lparr>queuedActions := (queuedActions w)(taskId a \<mapsto>
                           QueuedMessage (userMessage a) (mainModel a) (workspacePath a))\<rparr>)) \<and>
           activeStreams (handleFollowUpLogic (taskId a) w) = activeStreams w \<and>
           stopRequested (handleFollowUpLogic (taskId a) w) = stopRequested w \<and>
           pendingUpdates (handleFollowUpLogic (taskId a) w) = pendingUpdates w \<and>
           chatMessages (handleFollowUpLogic (taskId a) w) = chatMessages w \<and>
           Abort c \<notin> set (drop (length (trace w)) (trace (handleFollowUpLogic (taskId a) w))))"
proof (intro conjI impI)
  assume nq: "\<not> queue a"
  let ?t = "taskId a"
  let ?w0 = "handleFollowUpLogic ?t w"
  let ?w1 = "(stopStream ?t ?w0)\<lparr>queuedActions := (queuedActions (stopStream ?t ?w0))(?t := None)\<rparr>"
  from assms have act: "activeStreams ?w0 ?t = Some c" by simp
  have g: "gate a ?w0 = Proceed ?w1"
    using nq act by (auto simp: gate_def Let_def intro!: world.equality)
  note st = stopStream_active [OF act]
  have mem: "Abort c \<in> set (trace ?w1)"
    using st(4) by (auto simp: prefix_def)
  have turn: "\<exists>w2. runStream env ?t (mainModel a) items
                          (initialTurnState, beginTurn env a ?w1) = (None, initialTurnState, w2) \<and>
                    processUserMessageInternal env (items # rest) a w = Some (None, w2) \<and>
                    taskStatus ?t w2 = Some STOPPED \<and>
                    ?t \<notin> stopRequested w2 \<and>
                    activeStreams w2 ?t = None"
    if quiet: "(\<forall>x. StreamThrows x \<notin> set items) \<and> OtherTurnEnds \<notin> set items" for items rest
  proof -
    have flag: "?t \<in> stopRequested (beginTurn env a ?w1)" using st(2) by simp
    have fresh: "\<not> hasError initialTurnState"
      "\<forall>i. assistantMessageId initialTurnState = Some i \<longrightarrow> hasRow i (beginTurn env a ?w1)"
      by (simp_all add: initialTurnState_def)
    from stopped_turn_status [OF flag fresh quiet, of env "mainModel a"]
    obtain w2 where run: "runStream env ?t (mainModel a) items
                            (initialTurnState, beginTurn env a ?w1) = (None, initialTurnState, w2)"
      and status: "taskStatus ?t w2 = Some STOPPED"
      by (auto simp: finalizeReasoning_initial)
    have "queuedActions (beginTurn env a ?w1) ?t = None" by simp
    from slot_runStream [OF this, of env "mainModel a" items initialTurnState] run
    have "queuedActions w2 ?t = None" by simp
    then have "processQueuedActions env rest ?t w2 = Some w2"
      by (rule processQueuedActions_empty)
    with g run have whole: "processUserMessageInternal env (items # rest) a w = Some (None, w2)"
      by (simp add: processUserMessageInternal.simps [of env _ a w])
    from run status whole runStream_unregisters [OF run] show ?thesis by blast
  qed
  show "\<exists>w1. gate a (handleFollowUpLogic (taskId a) w) = Proceed w1 \<and>
              activeStreams w1 (taskId a) = None \<and>
              taskId a \<in> stopRequested w1 \<and>
              Abort c \<in> set (trace w1) \<and>
              queuedActions w1 (taskId a) = None \<and>
              (\<forall>items rest.
                 (\<forall>x. StreamThrows x \<notin> set items) \<and> OtherTurnEnds \<notin> set items \<longrightarrow>
                 (\<exists>w2. runStream env (taskId a) (mainModel a) items
                          (initialTurnState, beginTurn env a w1) = (None, initialTurnState, w2) \<and>
                    processUserMessageInternal env (items # rest) a w = Some (None, w2) \<and>
                    taskStatus (taskId a) w2 = Some STOPPED \<and>
                    taskId a \<notin> stopRequested w2 \<and>
                    activeStreams w2 (taskId a) = None))"
    apply (rule exI [of _ ?w1])
    apply (intro conjI allI impI)
         apply (rule g)
    using st(1) apply simp
    using st(2) apply simp
      apply (rule mem)
     apply simp
    apply (erule turn)
    done
next
  assume q: "queue a"
  from assms have act: "activeStreams (handleFollowUpLogic (taskId a) w) (taskId a) \<noteq> None" by simp
  show "\<forall>streams.
              processUserMessageInternal env streams a w =
                Some (None, (handleFollowUpLogic (taskId a) w)
                        \<lparr>queuedActions := (queuedActions w)(taskId a \<mapsto>
                           QueuedMessage (userMessage a) (mainModel a) (workspacePath a))\<rparr>)"
    using q act by (simp add: processUserMessageInternal.simps [of env _ a w] gate_def)
qed (auto simp: handleFollowUpLogic_def updateTaskStatus_def emit_def split: option.splits)

theorem immediate_submit_stops_new_turn_witness:
  "processUserMessageInternal exampleEnv [[Chunk (Content (Some ''b''))]] exampleArgs exampleStreamingWorld =
     Some (None, exampleAfterSubmit) \<and>
   runStream exampleEnv ''T'' ''m'' [Chunk (Content (Some ''b''))]
     (initialTurnState,
      beginTurn exampleEnv exampleArgs (clearQueuedAction ''T'' (stopStream ''T'' exampleStreamingWorld))) =
     (None, initialTurnState, exampleAfterSubmit) \<and>
   map m_content (chatMessages exampleAfterSubmit) = [''a'', ''next''] \<and>
   taskStatus ''T'' exampleAfterSubmit = Some STOPPED \<and>
   ''T'' \<notin> stopRequested exampleAfterSubmit \<and>
   assistantParts (fst (snd (runStream exampleEnv ''T'' ''m'' [Chunk (Content (Some ''c''))]
       (exampleStreamingState, exampleAfterSubmit)))) = [TextPart ''a'', TextPart ''c''] \<and>
   taskStatus ''T'' (snd (snd (runStream exampleEnv ''T'' ''m'' [Chunk (Content (Some ''c''))]
       (exampleStreamingState, exampleAfterSubmit)))) = Some COMPLETED \<and>
   processUserMessageInternal exampleEnv [] (exampleArgs\<lparr>queue := True\<rparr>) exampleStreamingWorld =
     Some (None, exampleStreamingWorld\<lparr>queuedActions := [''T'' \<mapsto> QueuedMessage ''next'' ''m'' None]\<rparr>)"
proof -
  have active: "activeStreams exampleStreamingWorld (taskId exampleArgs) = Some 0"
    and active': "activeStreams exampleStreamingWorld (taskId (exampleArgs\<lparr>queue := True\<rparr>)) = Some 0"
    by (simp_all add: exampleStreamingWorld_def exampleErrorWorld_def exampleArgs_def emptyWorld_def
        Let_def pushPart_def initialTurnState_def createAssistantRow_def saveAssistantMessage_def
        createMessage_def emit_def)
  have same: "handleFollowUpLogic ''T'' exampleStreamingWorld = exampleStreamingWorld"
    by (simp add: handleFollowUpLogic_def exampleStreamingWorld_def exampleErrorWorld_def emptyWorld_def
        Let_def pushPart_def initialTurnState_def createAssistantRow_def saveAssistantMessage_def
        createMessage_def emit_def)
  have fields: "taskId exampleArgs = ''T''" "\<not> queue exampleArgs" "userMessage exampleArgs = ''next''"
    "mainModel exampleArgs = ''m''" "workspacePath exampleArgs = None"
    by (simp_all add: exampleArgs_def)
  have g: "gate exampleArgs exampleStreamingWorld =
             Proceed (clearQueuedAction ''T'' (stopStream ''T'' exampleStreamingWorld))"
    using active exampleStreaming_facts(6)
    by (simp add: gate_def Let_def fields clearQueuedAction_def stopStream_active(5))
  from immediate_submit_stops_new_turn [OF active, of exampleEnv] fields same g
  obtain w2 where run: "runStream exampleEnv ''T'' ''m'' [Chunk (Content (Some ''b''))]
       (initialTurnState,
        beginTurn exampleEnv exampleArgs (clearQueuedAction ''T'' (stopStream ''T'' exampleStreamingWorld))) =
       (None, initialTurnState, w2)"
    and whole: "processUserMessageInternal exampleEnv [[Chunk (Content (Some ''b''))]] exampleArgs
                  exampleStreamingWorld = Some (None, w2)"
    and flag: "''T'' \<notin> stopRequested w2"
    by force
  from run have w2: "w2 = exampleAfterSubmit" by (simp add: exampleAfterSubmit_def)
  have slot: "(queuedActions exampleStreamingWorld)(''T'' \<mapsto> QueuedMessage ''next'' ''m'' None) =
              [''T'' \<mapsto> QueuedMessage ''next'' ''m'' None]"
    by (rule ext) (simp add: exampleStreamingWorld_def exampleErrorWorld_def emptyWorld_def
        Let_def pushPart_def initialTurnState_def createAssistantRow_def saveAssistantMessage_def
        createMessage_def emit_def)
  from immediate_submit_stops_new_turn [OF active', of exampleEnv] fields same slot
  have queued:
    "processUserMessageInternal exampleEnv [] (exampleArgs\<lparr>queue := True\<rparr>) exampleStreamingWorld =
       Some (None, exampleStreamingWorld\<lparr>queuedActions := [''T'' \<mapsto> QueuedMessage ''next'' ''m'' None]\<rparr>)"
    by simp
  from run whole flag queued example_resumed_turn show ?thesis
    unfolding w2 by simp
qed

section \<open>Reasoning without a signature\<close>

lemma createAssistantRow_local:
  "createAssistantRow t model c (s, w) = (s', w') \<Longrightarrow>
     assistantParts s' = assistantParts s \<and> activeReasoningParts s' = activeReasoningParts s \<and>
     reasoningCounter s' = reasoningCounter s \<and> stopRequested w' = stopRequested w"
  using createAssistantRow_result [of t model c s w s' w'] by simp

lemma quiet_chunk:
  assumes "\<not> interrupts (Chunk c)" and "openBlock s txt"
  shows "\<exists>s' w' ps. processChunk env t model c (s, w) = (Continue, s', w') \<and>
           assistantParts s' = assistantParts s @ ps \<and> (\<forall>p \<in> set ps. \<not> isReasoningPart p) \<and>
           openBlock s' (txt @ reasoningOf (Chunk c)) \<and> stopRequested w' = stopRequested w"
proof (cases c)
  case (Content x)
  show ?thesis
  proof (cases "truthy x")
    case False
    with Content assms(2) show ?thesis by simp
  next
    case True
    obtain s2 w2 where row: "createAssistantRow t model (payload x) (pushPart (TextPart (payload x)) s, w) = (s2, w2)"
      by (metis prod.exhaust)
    from createAssistantRow_local [OF row] True Content assms(2) row show ?thesis
      by (auto simp: Let_def assistantParts_pushPart openBlock_def pushPart_def)
  qed
next
  case (Reasoning x)
  show ?thesis
  proof (cases "truthy x")
    case False
    with Reasoning assms(2) show ?thesis by (cases x) simp_all
  next
    case True
    then obtain y where x: "x = Some y" "y \<noteq> []" by (cases x) auto
    let ?s1 = "s\<lparr>activeReasoningParts := [(reasoningCounter s, (txt @ y, None))]\<rparr>"
    have upd: "AList.update (reasoningCounter s)
                 (fst (case map_of (activeReasoningParts s) (reasoningCounter s) of
                         None \<Rightarrow> ([], None) | Some r \<Rightarrow> r) @ y,
                  snd (case map_of (activeReasoningParts s) (reasoningCounter s) of
                         None \<Rightarrow> ([], None) | Some r \<Rightarrow> r))
                 (activeReasoningParts s) = [(reasoningCounter s, (txt @ y, None))]"
      using assms(2) by (auto simp: openBlock_def split: if_splits)
    obtain s2 w2 where row: "createAssistantRow t model y (?s1, w) = (s2, w2)"
      by (metis prod.exhaust)
    from createAssistantRow_local [OF row] have loc:
      "assistantParts s2 = assistantParts s" "activeReasoningParts s2 = [(reasoningCounter s, (txt @ y, None))]"
      "reasoningCounter s2 = reasoningCounter s" "stopRequested w2 = stopRequested w"
      by simp_all
    show ?thesis
    proof (cases "assistantSequence s = None")
      case True
      with x Reasoning upd row loc show ?thesis
        by (simp add: Let_def openBlock_def)
    next
      case False
      with x Reasoning upd show ?thesis
        by (auto simp: Let_def openBlock_def)
    qed
  qed
next
  case (ReasoningSignature x)
  with assms show ?thesis by simp
next
  case (RedactedReasoning x)
  show ?thesis
  proof (cases "truthy x")
    case False
    with RedactedReasoning assms(2) show ?thesis by simp
  next
    case True
    obtain s2 w2 where row: "createAssistantRow t model ''[Redacted reasoning]'' (pushPart (RedactedReasoningPart (payload x)) s, w) = (s2, w2)"
      by (metis prod.exhaust)
    from createAssistantRow_local [OF row] True RedactedReasoning assms(2) row show ?thesis
      by (auto simp: Let_def assistantParts_pushPart openBlock_def pushPart_def)
  qed
next
  case (ToolCall x)
  with assms(2) show ?thesis
    by (cases x) (auto simp: Let_def assistantParts_pushPart openBlock_def pushPart_def)
next
  case (ToolResult x)
  with assms(2) show ?thesis
    by (cases x) (auto simp: Let_def assistantParts_pushPart openBlock_def pushPart_def)
next
  case (ErrorChunk e fr)
  with assms(1) show ?thesis by simp
next
  case (Usage x)
  with assms(2) show ?thesis
    by (cases x) (auto simp: openBlock_def)
next
  case OtherChunk
  with assms(2) show ?thesis by simp
qed

lemma reasoningText_Cons: "reasoningText (it # items) = reasoningOf it @ reasoningText items"
  by (simp add: reasoningText_def)

lemma quiet_loop:
  assumes "\<forall>it \<in> set items. \<not> interrupts it" and "openBlock s tx" and "t \<notin> stopRequested w"
  shows "\<exists>s' w' ps. streamLoop env t model items (s, w) = (Continue, s', w') \<and>
           assistantParts s' = assistantParts s @ ps \<and> (\<forall>p \<in> set ps. \<not> isReasoningPart p) \<and>
           openBlock s' (tx @ reasoningText items)"
  using assms
proof (induction items arbitrary: s w tx)
  case Nil
  then show ?case by (simp add: reasoningText_def)
next
  case (Cons it items)
  from Cons.prems(1) have quiet: "\<not> interrupts it" and rest: "\<forall>it \<in> set items. \<not> interrupts it"
    by simp_all
  show ?case
  proof (cases it)
    case (Chunk c)
    from quiet_chunk [of c s tx env t model w] quiet Chunk Cons.prems(2)
    obtain s1 w1 ps1 where step: "processChunk env t model c (s, w) = (Continue, s1, w1)"
      and p1: "assistantParts s1 = assistantParts s @ ps1" "\<forall>p \<in> set ps1. \<not> isReasoningPart p"
      and ob: "openBlock s1 (tx @ reasoningOf (Chunk c))"
      and st: "stopRequested w1 = stopRequested w"
      by blast
    from st Cons.prems(3) have "t \<notin> stopRequested w1" by simp
    from Cons.IH [OF rest ob this]
    obtain s' w' ps where loop: "streamLoop env t model items (s1, w1) = (Continue, s', w')"
      and p: "assistantParts s' = assistantParts s1 @ ps" "\<forall>p \<in> set ps. \<not> isReasoningPart p"
      and ob': "openBlock s' ((tx @ reasoningOf (Chunk c)) @ reasoningText items)"
      by blast
    have "assistantParts s' = assistantParts s @ (ps1 @ ps)" using p1(1) p(1) by simp
    moreover have "\<forall>p \<in> set (ps1 @ ps). \<not> isReasoningPart p" using p1(2) p(2) by auto
    ultimately show ?thesis
      using Chunk Cons.prems(3) step loop ob' by (auto simp: reasoningText_Cons)
  next
    case TimerFired
    have "t \<notin> stopRequested (flushAssistantUpdate t w)" using Cons.prems(3) by simp
    from Cons.IH [OF rest Cons.prems(2) this] TimerFired show ?thesis
      by (simp add: reasoningText_Cons)
  next
    case StopCalled
    with quiet show ?thesis by simp
  next
    case OtherTurnEnds
    have "t \<notin> stopRequested (unregister t w)" by (simp add: unregister_def)
    from Cons.IH [OF rest Cons.prems(2) this] OtherTurnEnds show ?thesis
      by (simp add: reasoningText_Cons)
  next
    case (StreamThrows m)
    with quiet show ?thesis by simp
  qed
qed

lemma finishTurn_state: "fst (snd (finishTurn env t (s, w))) = finalizeReasoning s"
  by (simp add: finishTurn_def Let_def split: prod.splits option.splits)

lemma runStream_state:
  "streamLoop env t model items sw = (Continue, s, w) \<Longrightarrow>
     fst (snd (runStream env t model items sw)) = finalizeReasoning s"
  using finishTurn_state [of env t s w]
  by (cases "finishTurn env t (s, w)" rule: prod_cases3)
     (auto simp: runStream_def split: option.splits)

text \<open>
  C6. No reasoning block is open, no stop is requested, and the stream that follows is
  consumed to its end: it holds no signature that the guard lets through, no error chunk,
  and neither a stop request nor an exception cuts it; the batch timer may fire at any
  point. If the stream carries reasoning text, then when the turn ends the parts in
  memory are the parts from before, then the parts of the other chunks, none of them a
  reasoning part, then one reasoning part, without signature, whose text is the reasoning
  text of the stream concatenated in order.
\<close>

theorem unsigned_reasoning_finalized:
  assumes "t \<notin> stopRequested w" and "activeReasoningParts s = []"
    and "\<forall>it \<in> set items. \<not> interrupts it" and "reasoningText items \<noteq> []"
  shows "\<exists>ps. assistantParts (fst (snd (runStream env t model items (s, w)))) =
                 assistantParts s @ ps @ [ReasoningPart (reasoningText items) None] \<and>
              (\<forall>p \<in> set ps. \<not> isReasoningPart p)"
proof -
  from assms(2) have "openBlock s []" by (simp add: openBlock_def)
  from quiet_loop [OF assms(3) this assms(1), of env model]
  obtain s' w' ps where loop: "streamLoop env t model items (s, w) = (Continue, s', w')"
    and p: "assistantParts s' = assistantParts s @ ps" "\<forall>p \<in> set ps. \<not> isReasoningPart p"
    and ob: "openBlock s' (reasoningText items)"
    by auto
  from ob assms(4) have "activeReasoningParts s' = [(reasoningCounter s', (reasoningText items, None))]"
    by (simp add: openBlock_def)
  then have "assistantParts (finalizeReasoning s') =
               assistantParts s @ ps @ [ReasoningPart (reasoningText items) None]"
    using p(1) by simp
  with runStream_state [OF loop] p(2) show ?thesis by auto
qed

theorem unsigned_reasoning_finalized_witness:
  "last (assistantParts (fst (snd (runStream exampleEnv ''T'' ''m'' exampleReasoningStream
      (initialTurnState, emptyWorld))))) = ReasoningPart ''thinking'' None \<and>
   filter isReasoningPart (assistantParts (fst (snd (runStream exampleEnv ''T'' ''m''
      exampleReasoningStream (initialTurnState, emptyWorld))))) = [ReasoningPart ''thinking'' None]"
proof -
  have free: "''T'' \<notin> stopRequested emptyWorld" by (simp add: emptyWorld_def)
  have none: "activeReasoningParts initialTurnState = []" by (simp add: initialTurnState_def)
  have quiet: "\<forall>it \<in> set exampleReasoningStream. \<not> interrupts it"
    by (simp add: exampleReasoningStream_def)
  have whole: "reasoningText exampleReasoningStream = ''thinking''"
    by (simp add: exampleReasoningStream_def reasoningText_def)
  then have some: "reasoningText exampleReasoningStream \<noteq> []" by simp
  from unsigned_reasoning_finalized [OF free none quiet some, of exampleEnv "''m''"]
  obtain ps where parts: "assistantParts (fst (snd (runStream exampleEnv ''T'' ''m''
        exampleReasoningStream (initialTurnState, emptyWorld)))) =
        ps @ [ReasoningPart ''thinking'' None]"
    and others: "\<forall>p \<in> set ps. \<not> isReasoningPart p"
    by (auto simp: whole initialTurnState_def)
  from others have "filter isReasoningPart ps = []" by (induction ps) auto
  with parts show ?thesis by simp
qed

section \<open>Order of the parts and persisted snapshots\<close>


















lemma pushPart_fields [simp]:
  "assistantSequence (pushPart p s) = assistantSequence s"
  "assistantMessageId (pushPart p s) = assistantMessageId s"
  "usageMetadata (pushPart p s) = usageMetadata s"
  "finishReason (pushPart p s) = finishReason s"
  "activeReasoningParts (pushPart p s) = activeReasoningParts s"
  "reasoningCounter (pushPart p s) = reasoningCounter s"
  by (simp_all add: pushPart_def)

lemma assistantSequence_finalizeReasoning [simp]:
  "assistantSequence (finalizeReasoning s) = assistantSequence s"
  by (simp add: finalizeReasoning_def)




















section \<open>Editing a message\<close>

lemma extends_refl [simp]: "extends w w"
  by (simp add: extends_def)

lemma extends_trans: "extends w w1 \<Longrightarrow> extends w1 w2 \<Longrightarrow> extends w w2"
  by (fastforce simp: extends_def)

lemma extends_same:
  "rowKeys w' = rowKeys w \<Longrightarrow> nextMessageId w' = nextMessageId w \<Longrightarrow> extends w w'"
  by (simp add: extends_def)

lemma rowKeys_updateRow:
  "(\<And>m. rowKey (f m) = rowKey m) \<Longrightarrow> map rowKey (updateRow i f ms) = map rowKey ms"
  by (induction ms) (simp_all add: updateRow_def)

lemma rowKey_applyPending [simp]: "rowKey (applyPending u m) = rowKey m"
  by (simp add: rowKey_def applyPending_def)

lemma extends_flush: "extends w (flushAssistantUpdate t w)"
  by (rule extends_same)
     (simp_all add: rowKeys_def flushAssistantUpdate_def emit_def Let_def rowKeys_updateRow
       split: option.splits)

lemma extends_clear: "extends w (clear env t w)"
  by (simp add: clear_def extends_flush) (simp add: extends_def rowKeys_def)

lemma extends_createMessage: "extends w (snd (createMessage m w))"
  by (simp add: extends_def rowKeys_def createMessage_def emit_def Let_def rowKey_def)

lemma extends_updateMessage:
  "(\<And>m. rowKey (f m) = rowKey m) \<Longrightarrow> extends w (snd (updateMessage i f w))"
  by (rule extends_same)
     (simp_all add: rowKeys_def updateMessage_def emit_def rowKeys_updateRow split: option.splits)

lemma extends_stopStream: "extends w (stopStream t w)"
proof -
  let ?w2 = "(case activeStreams (w\<lparr>stopRequested := insert t (stopRequested w)\<rparr>) t of
               None \<Rightarrow> w\<lparr>stopRequested := insert t (stopRequested w)\<rparr>
             | Some c \<Rightarrow> (emit (Abort c) (w\<lparr>stopRequested := insert t (stopRequested w)\<rparr>))
                  \<lparr>activeStreams := (activeStreams (w\<lparr>stopRequested := insert t (stopRequested w)\<rparr>))(t := None)\<rparr>)"
  have "extends w ?w2"
    by (rule extends_same) (simp_all add: rowKeys_def emit_def split: option.splits)
  moreover have "extends ?w2 (flushAssistantUpdate t ?w2)" by (rule extends_flush)
  moreover have "extends (flushAssistantUpdate t ?w2) (updateTaskStatus t STOPPED (flushAssistantUpdate t ?w2))"
    by (rule extends_same) (simp_all add: rowKeys_def updateTaskStatus_def emit_def)
  ultimately show ?thesis
    by (simp add: stopStream_def Let_def) (blast intro: extends_trans)
qed

lemma extends_scheduleUpdate: "extends w (scheduleUpdate t s w)"
  by (rule extends_same)
     (simp_all add: rowKeys_def scheduleUpdate_def scheduleAssistantUpdate_def split: option.splits)

lemma extends_createAssistantRow:
  "createAssistantRow t model c (s, w) = (s', w') \<Longrightarrow> extends w w'"
  using extends_createMessage
  by (auto simp: createAssistantRow_def saveAssistantMessage_def Let_def split: prod.splits)
     (metis snd_conv)

lemma extends_registry:
  "extends w w1 \<Longrightarrow> extends w (w1\<lparr>activeStreams := a, stopRequested := b\<rparr>)"
  by (simp add: extends_def rowKeys_def)

lemma extends_status: "extends w w1 \<Longrightarrow> extends w (updateTaskStatus t st w1)"
  by (simp add: extends_def rowKeys_def updateTaskStatus_def emit_def)

lemma extends_clearQueued: "extends w w1 \<Longrightarrow> extends w (clearQueuedAction t w1)"
  by (simp add: extends_def rowKeys_def clearQueuedAction_def)

lemma extends_handleErrorChunk:
  assumes "handleErrorChunk env t e fr (s, w) = (k, s', w')"
  shows "extends w w'"
proof (cases "assistantMessageId s")
  case None
  with assms show ?thesis
    by (auto simp: handleErrorChunk_def Let_def intro!: extends_clearQueued extends_registry extends_status)
next
  case (Some i)
  let ?f = "\<lambda>m. m\<lparr>m_content := fullContent (assistantParts (afterError e fr s)),
                 m_metadata := Some \<lparr>md_isStreaming = False,
                                       md_parts = assistantParts (afterError e fr s),
                                       md_usage = None,
                                       md_finishReason = finishReason (afterError e fr s)\<rparr>\<rparr>"
  obtain r w1 where upd: "updateMessage i ?f (clear env t w) = (r, w1)"
    by (metis prod.exhaust)
  have "extends (clear env t w) (snd (updateMessage i ?f (clear env t w)))"
    by (rule extends_updateMessage) (simp add: rowKey_def)
  with upd extends_clear [of w env t] have ext: "extends w w1"
    by (auto intro: extends_trans)
  from assms Some upd ext show ?thesis
    by (cases r) (auto simp: handleErrorChunk_def Let_def
        intro!: extends_clearQueued extends_registry extends_status)
qed

lemma extends_processChunk:
  assumes "processChunk env t model c (s, w) = (k, s', w')"
  shows "extends w w'"
  using assms
  by (cases "(env, t, model, c, (s, w))" rule: processChunk.cases)
     (auto simp: Let_def extends_scheduleUpdate split: if_splits option.splits prod.splits
       dest: extends_createAssistantRow extends_handleErrorChunk)

lemma extends_streamLoop:
  assumes "streamLoop env t model items (s, w) = (k, s', w')"
  shows "extends w w'"
  using assms
proof (induction items arbitrary: s w)
  case Nil
  then show ?case by simp
next
  case (Cons it items)
  show ?case
  proof (cases it)
    case (Chunk c)
    show ?thesis
    proof (cases "t \<in> stopRequested w")
      case True
      with Cons.prems Chunk show ?thesis by simp
    next
      case False
      obtain k1 s1 w1 where step: "processChunk env t model c (s, w) = (k1, s1, w1)"
        by (metis prod_cases3)
      from extends_processChunk [OF step] have e1: "extends w w1" .
      show ?thesis
      proof (cases k1)
        case Continue
        with Cons.prems Chunk False step
        have "streamLoop env t model items (s1, w1) = (k, s', w')" by simp
        from Cons.IH [OF this] e1 show ?thesis by (blast intro: extends_trans)
      next
        case Break
        with Cons.prems Chunk False step e1 show ?thesis by simp
      next
        case (Throw x)
        with Cons.prems Chunk False step e1 show ?thesis by simp
      qed
    qed
  next
    case TimerFired
    with Cons.prems have "streamLoop env t model items (s, flushAssistantUpdate t w) = (k, s', w')"
      by simp
    from Cons.IH [OF this] extends_flush [of w t] show ?thesis by (blast intro: extends_trans)
  next
    case StopCalled
    with Cons.prems have "streamLoop env t model items (s, stopStream t w) = (k, s', w')"
      by simp
    from Cons.IH [OF this] extends_stopStream [of w t] show ?thesis by (blast intro: extends_trans)
  next
    case OtherTurnEnds
    with Cons.prems have "streamLoop env t model items (s, unregister t w) = (k, s', w')"
      by simp
    moreover have "extends w (unregister t w)"
      unfolding unregister_def by (rule extends_registry) simp
    ultimately show ?thesis using Cons.IH by (blast intro: extends_trans)
  next
    case (StreamThrows m)
    with Cons.prems show ?thesis by simp
  qed
qed

lemma extends_finalUpdate:
  assumes "finalUpdate env t s w = (r, w')"
  shows "extends w w'"
proof (cases "assistantMessageId s")
  case None
  with assms show ?thesis by (simp add: finalUpdate_def)
next
  case (Some i)
  show ?thesis
  proof (cases "usageMetadata s")
    case None
    with assms Some have "w' = flushAssistantUpdate t (clear env t w)"
      by (simp add: finalUpdate_def Let_def)
    with extends_clear [of w env t] extends_flush [of "clear env t w" t] show ?thesis
      by (auto intro: extends_trans)
  next
    case (Some u)
    let ?f = "\<lambda>m. m\<lparr>m_content := fullContent (assistantParts s),
                 m_metadata := Some \<lparr>md_isStreaming = False, md_parts = assistantParts s,
                                 md_usage = Some u, md_finishReason = finishReason s\<rparr>,
                 m_usage := Some u, m_finishReason := finishReason s\<rparr>"
    from assms Some \<open>assistantMessageId s = Some i\<close>
    have upd: "updateMessage i ?f (clear env t w) = (r, w')"
      by (simp add: finalUpdate_def Let_def)
    have "extends (clear env t w) (snd (updateMessage i ?f (clear env t w)))"
      by (rule extends_updateMessage) (simp add: rowKey_def)
    with upd extends_clear [of w env t] show ?thesis
      by (auto intro: extends_trans)
  qed
qed

lemma extends_finishTurn:
  assumes "finishTurn env t (s, w) = (r, s', w')"
  shows "extends w w'"
proof -
  obtain r1 w1 where fu: "finalUpdate env t (finalizeReasoning s) w = (r1, w1)"
    by (metis prod.exhaust)
  from extends_finalUpdate [OF fu] have e1: "extends w w1" .
  from assms fu e1 show ?thesis
    by (cases r1) (auto simp: finishTurn_def Let_def intro!: extends_registry extends_status)
qed

lemma extends_catchBlock: "extends w w1 \<Longrightarrow> extends w (catchBlock t w1)"
  by (auto simp: catchBlock_def Let_def intro!: extends_clearQueued extends_registry extends_status)

lemma extends_runStream:
  assumes "runStream env t model items (s, w) = (r, s', w')"
  shows "extends w w'"
proof -
  obtain k s1 w1 where loop: "streamLoop env t model items (s, w) = (k, s1, w1)"
    by (metis prod_cases3)
  from extends_streamLoop [OF loop] have e1: "extends w w1" .
  obtain r2 s2 w2 where fin: "finishTurn env t (s1, w1) = (r2, s2, w2)"
    by (metis prod_cases3)
  from extends_finishTurn [OF fin] e1 have e2: "extends w w2" by (blast intro: extends_trans)
  from assms loop fin e1 e2 show ?thesis
    by (cases k; cases r2) (auto simp: runStream_def intro: extends_catchBlock)
qed

lemma extends_atomic: "extends w (snd (createMessageWithAtomicSequence t r c model md w))"
  by (simp add: createMessageWithAtomicSequence_def Let_def extends_createMessage)

lemma extends_addSystemMessage: "extends w (addSystemMessage t model c w)"
  by (simp add: addSystemMessage_def saveSystemMessage_def extends_createMessage)

lemma extends_beginTurn: "extends w (beginTurn env a w)"
proof -
  define w1 where "w1 = (if skipUserMessageSave a then w
             else snd (saveUserMessage (taskId a) (userMessage a) (mainModel a) w))"
  define wa where "wa = (if truthy (shadowWikiMessage env (taskId a))
             then addSystemMessage (taskId a) (mainModel a)
                    (payload (shadowWikiMessage env (taskId a))) w1
             else w1)"
  define w2 where "w2 = (case memoryContent env (taskId a) of
               None \<Rightarrow> wa
             | Some memories \<Rightarrow> addSystemMessage (taskId a) (mainModel a) memories wa)"
  have e1: "extends w w1" by (simp add: w1_def saveUserMessage_def extends_atomic)
  have ea: "extends w wa"
    unfolding wa_def using e1 extends_addSystemMessage [of w1] by (auto intro: extends_trans)
  have e2: "extends w w2"
    unfolding w2_def using ea extends_addSystemMessage [of wa]
    by (auto split: option.splits intro: extends_trans)
  have reg: "\<And>w2 c n. extends w w2 \<Longrightarrow> extends w (w2\<lparr>activeStreams := c, nextController := n\<rparr>)"
    by (simp add: extends_def rowKeys_def)
  have "beginTurn env a w =
          (let w3 = (if \<not> list_ex (\<lambda>m. m_role m = SYSTEM) (butlast (getChatHistory (taskId a) w1))
                     then w2 else w1)
           in w3\<lparr>activeStreams := (activeStreams w3)(taskId a \<mapsto> nextController w3),
                  nextController := Suc (nextController w3)\<rparr>)"
    by (simp only: beginTurn_def Let_def w1_def wa_def w2_def)
  then show ?thesis
    using e1 e2 by (simp add: Let_def reg)
qed

lemma extends_handleFollowUpLogic: "extends w (handleFollowUpLogic t w)"
  by (simp add: handleFollowUpLogic_def extends_status split: option.splits)

lemma extends_gate:
  "gate a w = Proceed w1 \<Longrightarrow> extends w w1"
  "gate a w = Queued w1 \<Longrightarrow> extends w w1"
proof -
  have q: "\<And>w2 f. extends w w2 \<Longrightarrow> extends w (w2\<lparr>queuedActions := f\<rparr>)"
    by (simp add: extends_def rowKeys_def)
  show "gate a w = Proceed w1 \<Longrightarrow> extends w w1"
    by (auto simp: gate_def Let_def extends_stopStream split: if_splits intro!: q)
  show "gate a w = Queued w1 \<Longrightarrow> extends w w1"
    by (auto simp: gate_def Let_def split: if_splits intro!: q)
qed

lemma extends_createStacked:
  "extends w (snd (createStackedTaskInternal env p m model u w))"
proof (cases "tasks w p")
  case None
  then show ?thesis by (simp add: createStackedTaskInternal_def)
next
  case (Some parentTask)
  show ?thesis
  proof (cases "t_userId parentTask = u")
    case False
    with Some show ?thesis by (simp add: createStackedTaskInternal_def)
  next
    case True
    let ?nt = "generateTaskId env (taskIdCounter w)"
    let ?w1 = "w\<lparr>tasks := (tasks w)(?nt \<mapsto> \<lparr>t_userId = u, t_initStatus = defaultInitStatus env\<rparr>),
                 taskIdCounter := Suc (taskIdCounter w)\<rparr>"
    let ?w2 = "snd (createMessage (newMessage ?nt USER 1 m model None) ?w1)"
    let ?w3 = "snd (createMessage ((newMessage p USER (getNextSequence p ?w2) m model None)
                 \<lparr>m_stackedTaskId := Some ?nt\<rparr>) ?w2)"
    have "extends w ?w1" by (simp add: extends_def rowKeys_def)
    moreover have "extends ?w1 ?w2" by (rule extends_createMessage)
    moreover have "extends ?w2 ?w3" by (rule extends_createMessage)
    ultimately have "extends w ?w3" by (blast intro: extends_trans)
    then have "extends w (emit (EmitQueuedActionProcessing p ''stacked-pr'') (updateTaskStatus ?nt RUNNING ?w3))"
      by (simp add: extends_def rowKeys_def updateTaskStatus_def emit_def)
    with Some True show ?thesis
      by (simp add: createStackedTaskInternal_def Let_def)
  qed
qed

lemma extends_turn:
  "processUserMessageInternal env streams a w = Some (x, w') \<Longrightarrow> extends w w'"
  "processQueuedActions env streams t w = Some w' \<Longrightarrow> extends w w'"
proof (induction env streams a w and env streams t w arbitrary: x w' and w'
    rule: processUserMessageInternal_processQueuedActions.induct)
  case (1 env streams a w)
  note eq = "1.prems" [unfolded processUserMessageInternal.simps [of env streams a w]]
  have e0: "extends w (handleFollowUpLogic (taskId a) w)" by (rule extends_handleFollowUpLogic)
  show ?case
  proof (cases "gate a (handleFollowUpLogic (taskId a) w)")
    case (Queued w1)
    with eq have "w' = w1" by simp
    with extends_gate(2) [OF Queued] e0 show ?thesis by (blast intro: extends_trans)
  next
    case (Proceed w1)
    from extends_gate(1) [OF Proceed] e0 have e1: "extends w w1" by (blast intro: extends_trans)
    show ?thesis
    proof (cases streams)
      case Nil
      with eq Proceed show ?thesis by simp
    next
      case (Cons items rest)
      obtain r s w2 where run: "runStream env (taskId a) (mainModel a) items
          (initialTurnState, beginTurn env a w1) = (r, s, w2)"
        by (metis prod_cases3)
      from extends_runStream [OF run] extends_beginTurn [of w1 env a] e1
      have e2: "extends w w2" by (blast intro: extends_trans)
      show ?thesis
      proof (cases r)
        case None
        with eq Proceed Cons run have q: "processQueuedActions env rest (taskId a) w2 = Some w'"
          by (simp split: option.splits)
        from "1.IH" [OF Proceed Cons run [symmetric] None refl q] e2 show ?thesis
          by (blast intro: extends_trans)
      next
        case (Some e)
        with eq Proceed Cons run have "w' = w2" by simp
        with e2 show ?thesis by simp
      qed
    qed
  qed
next
  case (2 env streams t w)
  note eq = "2.prems" [unfolded processQueuedActions.simps [of env streams t w]]
  show ?case
  proof (cases "queuedActions w t")
    case None
    with eq show ?thesis by simp
  next
    case (Some queuedAction)
    let ?w1 = "w\<lparr>queuedActions := (queuedActions w)(t := None)\<rparr>"
    have e1: "extends w ?w1" by (simp add: extends_def rowKeys_def)
    show ?thesis
    proof (cases queuedAction)
      case (QueuedMessage message model wp)
      with eq Some obtain r where turn:
        "processUserMessageInternal env streams
           \<lparr>taskId = t, userMessage = message, mainModel = model,
            skipUserMessageSave = False, workspacePath = wp, queue = False\<rparr>
           (emit (EmitQueuedActionProcessing t ''message'') ?w1) = Some (r, w')"
        by (auto simp: Let_def split: option.splits)
      have "extends w (emit (EmitQueuedActionProcessing t ''message'') ?w1)"
        by (simp add: extends_def rowKeys_def emit_def)
      with "2.IH" [OF Some refl QueuedMessage turn] show ?thesis
        by (blast intro: extends_trans)
    next
      case (QueuedStackedPR message parentTaskId model userId)
      with eq Some have "w' = snd (createStackedTaskInternal env parentTaskId message model userId ?w1)"
        by (simp add: Let_def)
      with extends_createStacked [of ?w1 env parentTaskId message model userId] e1 show ?thesis
        by (auto intro: extends_trans)
    qed
  qed
qed

lemma findMessage_key:
  "map_option rowKey (findMessage i ms) = find (\<lambda>k. fst k = i) (map rowKey ms)"
  by (induction ms) (simp_all add: findMessage_def rowKey_def)

lemma same_rows_stopStream:
  "rowKeys (stopStream t w) = rowKeys w \<and> nextMessageId (stopStream t w) = nextMessageId w"
proof -
  have "\<And>w. rowKeys (flushAssistantUpdate t w) = rowKeys w"
    by (simp add: rowKeys_def flushAssistantUpdate_def emit_def Let_def rowKeys_updateRow
        split: option.splits)
  then show ?thesis
    by (simp add: stopStream_def Let_def updateTaskStatus_def emit_def rowKeys_def split: option.splits)
qed

lemma rowKeys_deleteMany:
  "rowKeys (deleteMany t q w) = filter (\<lambda>k. \<not> (fst (snd k) = t \<and> q < snd (snd k))) (rowKeys w)"
  by (simp add: rowKeys_def deleteMany_def emit_def filter_map comp_def rowKey_def)

lemma queuedActions_deleteMany [simp]: "queuedActions (deleteMany t q w) = queuedActions w"
  by (simp add: deleteMany_def emit_def)

text \<open>
  C7. The row to edit is in the table, and every identifier in the table is below the
  counter of the next insert. Then \<open>editUserMessage\<close> returns when a stream is
  available for the turn it starts, and whenever it returns, a row that was in the table
  before the edit is still there afterwards, under its identifier, task and sequence,
  exactly when it is not a row of the task with a sequence greater than that of the
  edited row: those rows are gone, all others stay, through the whole operation including
  the turn that follows the deletion.
\<close>

theorem edit_deletes_later_messages:
  assumes "findMessage messageId (chatMessages w) = Some editedMessage" and "idsBelow w"
  shows "(\<exists>r w'. editUserMessage env (items # rest) t messageId newContent newModel wp w = Some (r, w')) \<and>
         (\<forall>r w'. editUserMessage env streams t messageId newContent newModel wp w = Some (r, w') \<longrightarrow>
            (\<forall>m \<in> set (chatMessages w).
               (rowKey m \<in> set (rowKeys w')) =
               (\<not> (m_taskId m = t \<and> m_sequence editedMessage < m_sequence m))))"
proof -
  let ?w1 = "if activeStreams w t \<noteq> None then stopStream t w else w"
  let ?w2 = "clearQueuedAction t ?w1"
  let ?f = "\<lambda>m. m\<lparr>m_content := newContent, m_llmModel := newModel, m_edited := True\<rparr>"
  let ?a = "\<lparr>taskId = t, userMessage = newContent, mainModel = newModel,
             skipUserMessageSave = True, workspacePath = wp, queue = False\<rparr>"
  have keys2: "rowKeys ?w2 = rowKeys w" and next2: "nextMessageId ?w2 = nextMessageId w"
    using same_rows_stopStream [of t w] by (simp_all add: clearQueuedAction_def rowKeys_def)
  have key_found: "\<And>w'. rowKeys w' = rowKeys w \<Longrightarrow>
      \<exists>m'. findMessage messageId (chatMessages w') = Some m' \<and> rowKey m' = rowKey editedMessage"
  proof -
    fix w' assume "rowKeys w' = rowKeys w"
    then have "map_option rowKey (findMessage messageId (chatMessages w')) =
               map_option rowKey (findMessage messageId (chatMessages w))"
      by (simp add: findMessage_key rowKeys_def)
    with assms(1) show "\<exists>m'. findMessage messageId (chatMessages w') = Some m' \<and> rowKey m' = rowKey editedMessage"
      by auto
  qed
  from key_found [OF keys2] obtain m2 where f2: "findMessage messageId (chatMessages ?w2) = Some m2"
    by blast
  let ?w3 = "emit (DbUpdate (?f m2)) (?w2\<lparr>chatMessages := updateRow messageId ?f (chatMessages ?w2)\<rparr>)"
  have upd: "updateMessage messageId ?f ?w2 = (None, ?w3)"
    using f2 by (simp add: updateMessage_def)
  have keys3: "rowKeys ?w3 = rowKeys w" and next3: "nextMessageId ?w3 = nextMessageId w"
    using keys2 next2 by (simp_all add: rowKeys_def emit_def rowKeys_updateRow rowKey_def)
  from key_found [OF keys3] obtain m3 where f3: "findMessage messageId (chatMessages ?w3) = Some m3"
    and k3: "rowKey m3 = rowKey editedMessage"
    by blast
  then have seq3: "m_sequence m3 = m_sequence editedMessage" by (simp add: rowKey_def)
  let ?w4 = "deleteMany t (m_sequence editedMessage) ?w3"
  have edit: "\<And>streams. editUserMessage env streams t messageId newContent newModel wp w =
                processUserMessageInternal env streams ?a ?w4"
    using upd f3 seq3 by (simp add: editUserMessage_def Let_def processUserMessage_def)
  have q4: "queuedActions ?w4 (taskId ?a) = None"
    by (simp add: emit_def clearQueuedAction_def)
  have "\<exists>r. processUserMessageInternal env (items # rest) ?a ?w4 = Some r"
    by (rule turn_returns [OF _ q4]) simp
  then have returns: "\<exists>r w'. editUserMessage env (items # rest) t messageId newContent newModel wp w = Some (r, w')"
    unfolding edit by auto
  have frame: "\<forall>r w'. editUserMessage env streams t messageId newContent newModel wp w = Some (r, w') \<longrightarrow>
            (\<forall>m \<in> set (chatMessages w).
               (rowKey m \<in> set (rowKeys w')) =
               (\<not> (m_taskId m = t \<and> m_sequence editedMessage < m_sequence m)))"
  proof (intro allI impI ballI)
    fix r w' m
    assume res: "editUserMessage env streams t messageId newContent newModel wp w = Some (r, w')"
      and m: "m \<in> set (chatMessages w)"
    from res have "processUserMessageInternal env streams ?a ?w4 = Some (r, w')"
      unfolding edit .
    from extends_turn(1) [OF this] obtain new where
      keys': "rowKeys w' = rowKeys ?w4 @ new" and fresh: "\<forall>k \<in> set new. nextMessageId ?w4 \<le> fst k"
      by (auto simp: extends_def)
    have next4: "nextMessageId ?w4 = nextMessageId w"
      using next3 by (simp add: deleteMany_def emit_def)
    have keys4: "rowKeys ?w4 =
        filter (\<lambda>k. \<not> (fst (snd k) = t \<and> m_sequence editedMessage < snd (snd k))) (rowKeys w)"
      by (simp only: rowKeys_deleteMany keys3)
    define K4 where "K4 = rowKeys ?w4"
    define K' where "K' = rowKeys w'"
    have k': "K' = K4 @ new" using keys' by (simp only: K4_def K'_def)
    have k4: "K4 = filter (\<lambda>k. \<not> (fst (snd k) = t \<and> m_sequence editedMessage < snd (snd k))) (rowKeys w)"
      using keys4 by (simp only: K4_def)
    from m assms(2) have "m_id m < nextMessageId w" by (simp add: idsBelow_def)
    then have old: "rowKey m \<notin> set new"
      using fresh next4 by (auto simp: rowKey_def)
    from m have "rowKey m \<in> set (rowKeys w)" by (simp add: rowKeys_def)
    with old have "(rowKey m \<in> set K') =
               (\<not> (m_taskId m = t \<and> m_sequence editedMessage < m_sequence m))"
      by (auto simp: k' k4 rowKey_def)
    then show "(rowKey m \<in> set (rowKeys w')) =
               (\<not> (m_taskId m = t \<and> m_sequence editedMessage < m_sequence m))"
      by (simp only: K'_def)
  qed
  from returns frame show ?thesis by blast
qed

theorem edit_deletes_later_messages_witness:
  "\<exists>r w'. editUserMessage exampleEnv [[Chunk (Content (Some ''again''))]] ''T'' 1 ''edited'' ''m'' None
             exampleEditWorld = Some (r, w') \<and>
          (2, ''T'', 3) \<notin> set (rowKeys w') \<and>
          (0, ''T'', 1) \<in> set (rowKeys w') \<and>
          (1, ''T'', 2) \<in> set (rowKeys w') \<and>
          (3, ''U'', 5) \<in> set (rowKeys w')"
proof -
  have found: "findMessage 1 (chatMessages exampleEditWorld) = Some (exampleRow 1 ''T'' 2)"
    by (simp add: exampleEditWorld_def emptyWorld_def findMessage_def exampleRow_def)
  have ids: "idsBelow exampleEditWorld"
    by (simp add: idsBelow_def exampleEditWorld_def emptyWorld_def exampleRow_def)
  have rows: "set (chatMessages exampleEditWorld) =
      {exampleRow 0 ''T'' 1, exampleRow 1 ''T'' 2, exampleRow 2 ''T'' 3, exampleRow 3 ''U'' 5}"
    by (simp add: exampleEditWorld_def emptyWorld_def)
  note inst = edit_deletes_later_messages [OF found ids, of exampleEnv "[Chunk (Content (Some ''again''))]" "[]"
      "''T''" "''edited''" "''m''" None "[[Chunk (Content (Some ''again''))]]"]
  from inst obtain r w' where res:
    "editUserMessage exampleEnv [[Chunk (Content (Some ''again''))]] ''T'' 1 ''edited'' ''m'' None
       exampleEditWorld = Some (r, w')"
    by blast
  with inst have "\<forall>m \<in> set (chatMessages exampleEditWorld).
               (rowKey m \<in> set (rowKeys w')) =
               (\<not> (m_taskId m = ''T'' \<and> m_sequence (exampleRow 1 ''T'' 2) < m_sequence m))"
    by blast
  then have "(2, ''T'', 3) \<notin> set (rowKeys w') \<and> (0, ''T'', 1) \<in> set (rowKeys w') \<and>
          (1, ''T'', 2) \<in> set (rowKeys w') \<and> (3, ''U'', 5) \<in> set (rowKeys w')"
    unfolding rows by (simp add: rowKey_def exampleRow_def newMessage_def)
  with res show ?thesis by blast
qed

end
